theory Spec2Isabelle
  imports Main "HOL-Library.Sublist" "HOL-Library.AList"
begin

section \<open>The game-module instantiator of \<^verbatim>\<open>scripts/setup_game_module.py\<close>\<close>

text \<open>
  The script clones the directory \<^verbatim>\<open>game/template\<close> to \<^verbatim>\<open>game/ID\<close>,
  rewrites placeholders in the build descriptor and in the Kotlin sources, renames the
  namespace directory, writes \<^verbatim>\<open>GameConfig.kt\<close>, and deletes the new directory again
  when any of this raises. The embedding below follows \<^verbatim>\<open>setup_game_module\<close> statement
  by statement. A \<^verbatim>\<open>print\<close> call writes a progress message; the model keeps it as a
  statement that may raise and drops the message.

  Scope of the model:
  \<^item> the file system is a tree of plain files and directories (no symbolic links,
    permissions or special files); a path is the list of its components;
  \<^item> \<^verbatim>\<open>game_id\<close> is used as one path component, which is what it is for the ids
    satisfying \<open>safe_token\<close> below;
  \<^item> strings are lists of bytes; case conversion is the ASCII one, so \<open>type_name\<close> is
    Python's derived name for the ids satisfying \<open>ascii_only\<close> below;
  \<^item> text files are read with Python's universal newlines and written as on POSIX;
    \<^verbatim>\<open>os.rename\<close> follows POSIX;
  \<^item> a failure that the tree cannot express (permissions, a full disk, a decoding error,
    a console that cannot show a message) is injected by an environment that says, for
    each statement of the function that can raise, whether it raises and what it leaves
    behind in the target directory;
  \<^item> what is raised is an \<^verbatim>\<open>Exception\<close>, which the handler catches; an interrupt from
    outside the program is not modelled.
\<close>

subsection \<open>Strings\<close>

text \<open>
  \<^verbatim>\<open>str.replace(old, new)\<close>: the occurrences of \<open>old\<close> are found from left to right and
  do not overlap. For an empty \<open>old\<close> Python inserts \<open>new\<close> before every character and
  at the end.
\<close>

function str_replace_ne :: "string \<Rightarrow> string \<Rightarrow> string \<Rightarrow> string" where
  "str_replace_ne old new [] = []"
| "str_replace_ne old new (c # cs) =
     (if old \<noteq> [] \<and> prefix old (c # cs)
      then new @ str_replace_ne old new (drop (length old) (c # cs))
      else c # str_replace_ne old new cs)"
  by pat_completeness auto
termination
  by (relation "measure (\<lambda>(old, new, s). length s)") auto

definition str_replace :: "string \<Rightarrow> string \<Rightarrow> string \<Rightarrow> string" where
  "str_replace old new s =
     (if old = [] then new @ concat (map (\<lambda>c. c # new) s) else str_replace_ne old new s)"

definition is_lower :: "char \<Rightarrow> bool" where
  "is_lower c = (97 \<le> (of_char c :: nat) \<and> (of_char c :: nat) \<le> 122)"

definition is_upper :: "char \<Rightarrow> bool" where
  "is_upper c = (65 \<le> (of_char c :: nat) \<and> (of_char c :: nat) \<le> 90)"

definition is_digit :: "char \<Rightarrow> bool" where
  "is_digit c = (48 \<le> (of_char c :: nat) \<and> (of_char c :: nat) \<le> 57)"

definition is_cased :: "char \<Rightarrow> bool" where
  "is_cased c = (is_lower c \<or> is_upper c)"

definition to_upper :: "char \<Rightarrow> char" where
  "to_upper c = (if is_lower c then char_of ((of_char c :: nat) - 32) else c)"

definition to_lower :: "char \<Rightarrow> char" where
  "to_lower c = (if is_upper c then char_of ((of_char c :: nat) + 32) else c)"

text \<open>
  \<^verbatim>\<open>str.title()\<close>: a cased character is put in upper case when the character before it
  is not cased (or there is none), and in lower case otherwise.
\<close>

fun title_from :: "bool \<Rightarrow> string \<Rightarrow> string" where
  "title_from previous_is_cased [] = []"
| "title_from previous_is_cased (c # cs) =
     (if previous_is_cased then to_lower c else to_upper c) # title_from (is_cased c) cs"

definition title :: "string \<Rightarrow> string" where
  "title s = title_from False s"

text \<open>\<^verbatim>\<open>game_id.replace('-', '_').title().replace('_', '')\<close>\<close>

definition type_name :: "string \<Rightarrow> string" where
  "type_name game_id = str_replace ''_'' '''' (title (str_replace ''-'' ''_'' game_id))"

text \<open>Text mode reading: \<^verbatim>\<open>\r\n\<close> and a lone \<^verbatim>\<open>\r\<close> become \<^verbatim>\<open>\n\<close>.\<close>

fun universal_newlines :: "string \<Rightarrow> string" where
  "universal_newlines [] = []"
| "universal_newlines [c] = [if c = CHR 0x0D then CHR 0x0A else c]"
| "universal_newlines (c # d # ds) =
     (if c = CHR 0x0D \<and> d = CHR 0x0A then CHR 0x0A # universal_newlines ds
      else if c = CHR 0x0D then CHR 0x0A # universal_newlines (d # ds)
      else c # universal_newlines (d # ds))"

text \<open>The two substitutions on the build descriptor, the qualified placeholder first.\<close>

definition rewrite_build :: "string \<Rightarrow> string \<Rightarrow> string" where
  "rewrite_build game_id content =
     str_replace ''GAME_ID'' game_id
       (str_replace ''com.roshni.games.game.GAME_ID'' (''com.roshni.games.game.'' @ game_id)
          content)"

text \<open>The two substitutions on a Kotlin source file.\<close>

definition rewrite_kotlin :: "string \<Rightarrow> string \<Rightarrow> string" where
  "rewrite_kotlin game_id content =
     str_replace ''Template'' (type_name game_id)
       (str_replace ''package com.roshni.games.game.template''
          (''package com.roshni.games.game.'' @ game_id) content)"

text \<open>The format string of the generated configuration.\<close>

definition config_content :: "string \<Rightarrow> string \<Rightarrow> string \<Rightarrow> string" where
  \<open>config_content game_id game_name category =
     ''package com.roshni.games.game.'' @ game_id @ ''\<newline>'' @
     ''\<newline>'' @
     ''// Game configuration for '' @ game_name @ ''\<newline>'' @
     ''object GameConfig {\<newline>'' @
     ''    const val GAME_ID = "'' @ game_id @ ''"\<newline>'' @
     ''    const val GAME_NAME = "'' @ game_name @ ''"\<newline>'' @
     ''    const val CATEGORY = "'' @ category @ ''"\<newline>'' @
     ''    const val VERSION = "1.0.0"\<newline>'' @
     ''    const val MIN_SDK = 24\<newline>'' @
     ''    const val TARGET_SDK = 34\<newline>'' @
     ''}\<newline>''\<close>

subsection \<open>The file system\<close>

type_synonym name = string
type_synonym path = "name list"

datatype node = File string | Dir "(name \<times> node) list"

fun lookup :: "node \<Rightarrow> path \<Rightarrow> node option" where
  "lookup n [] = Some n"
| "lookup (File c) (x # xs) = None"
| "lookup (Dir es) (x # xs) =
     (case map_of es x of None \<Rightarrow> None | Some n \<Rightarrow> lookup n xs)"

text \<open>\<^verbatim>\<open>Path.exists()\<close>\<close>

definition path_exists :: "node \<Rightarrow> path \<Rightarrow> bool" where
  "path_exists fs p = (lookup fs p \<noteq> None)"

text \<open>
  \<open>put fs p t\<close> makes \<open>t\<close> the node at \<open>p\<close>, creating or replacing the last component;
  the parent of \<open>p\<close> must be a directory. \<open>remove fs p\<close> unlinks the node at \<open>p\<close>.
\<close>

fun put :: "node \<Rightarrow> path \<Rightarrow> node \<Rightarrow> node option" where
  "put n [] t = Some t"
| "put (File c) (x # xs) t = None"
| "put (Dir es) [x] t = Some (Dir (AList.update x t es))"
| "put (Dir es) (x # y # ys) t =
     (case map_of es x of None \<Rightarrow> None
      | Some n \<Rightarrow>
          (case put n (y # ys) t of None \<Rightarrow> None
           | Some n' \<Rightarrow> Some (Dir (AList.update x n' es))))"

fun remove :: "node \<Rightarrow> path \<Rightarrow> node option" where
  "remove n [] = None"
| "remove (File c) (x # xs) = None"
| "remove (Dir es) [x] =
     (if map_of es x = None then None else Some (Dir (AList.delete x es)))"
| "remove (Dir es) (x # y # ys) =
     (case map_of es x of None \<Rightarrow> None
      | Some n \<Rightarrow>
          (case remove n (y # ys) of None \<Rightarrow> None
           | Some n' \<Rightarrow> Some (Dir (AList.update x n' es))))"

text \<open>\<^verbatim>\<open>os.makedirs(p)\<close>: the directory and its missing ancestors; \<open>p\<close> must not exist.\<close>

fun mkchain :: "path \<Rightarrow> node" where
  "mkchain [] = Dir []"
| "mkchain (x # xs) = Dir [(x, mkchain xs)]"

fun makedirs :: "node \<Rightarrow> path \<Rightarrow> node option" where
  "makedirs n [] = None"
| "makedirs (File c) (x # xs) = None"
| "makedirs (Dir es) (x # xs) =
     (case map_of es x of None \<Rightarrow> Some (Dir (es @ [(x, mkchain xs)]))
      | Some n \<Rightarrow>
          (case makedirs n xs of None \<Rightarrow> None
           | Some n' \<Rightarrow> Some (Dir (AList.update x n' es))))"

text \<open>
  \<^verbatim>\<open>Path.rglob("*.kt")\<close>: the paths, relative to the directory, of all entries below it
  (files and directories alike) whose name ends in \<^verbatim>\<open>.kt\<close>. On anything but a directory
  it yields nothing.
\<close>

definition is_kt :: "name \<Rightarrow> bool" where
  "is_kt x = suffix ''.kt'' x"

fun rglob :: "node \<Rightarrow> path list" and rglob_entries :: "(name \<times> node) list \<Rightarrow> path list" where
  "rglob (File c) = []"
| "rglob (Dir es) = rglob_entries es"
| "rglob_entries [] = []"
| "rglob_entries ((x, n) # es) =
     (if is_kt x then [[x]] else []) @ map ((#) x) (rglob n) @ rglob_entries es"

subsection \<open>Operations that may raise\<close>

text \<open>
  An operation takes the file system and returns \<open>(Some v, fs')\<close> when it returns \<open>v\<close>,
  and \<open>(None, fs')\<close> when it raises; \<open>fs'\<close> is the file system it leaves.
\<close>

type_synonym 'a io = "node \<Rightarrow> 'a option \<times> node"

definition and_then :: "'a io \<Rightarrow> ('a \<Rightarrow> 'b io) \<Rightarrow> 'b io" where
  "and_then m f fs = (case m fs of (None, fs') \<Rightarrow> (None, fs') | (Some a, fs') \<Rightarrow> f a fs')"

text \<open>\<^verbatim>\<open>open(p, 'r').read()\<close> and \<^verbatim>\<open>open(p, 'w').write(content)\<close>\<close>

definition read_file :: "path \<Rightarrow> string io" where
  "read_file p fs =
     (case lookup fs p of Some (File c) \<Rightarrow> (Some (universal_newlines c), fs)
      | _ \<Rightarrow> (None, fs))"

definition write_file :: "path \<Rightarrow> string \<Rightarrow> unit io" where
  "write_file p content fs =
     (case lookup fs p of Some (Dir es) \<Rightarrow> (None, fs)
      | _ \<Rightarrow> (case put fs p (File content) of None \<Rightarrow> (None, fs)
               | Some fs' \<Rightarrow> (Some (), fs')))"

text \<open>
  \<^verbatim>\<open>os.rename(src, dst)\<close>: an existing \<open>dst\<close> is replaced when it is an empty directory and
  \<open>src\<close> a directory, or when both are files.
\<close>

fun replaceable :: "node \<Rightarrow> node option \<Rightarrow> bool" where
  "replaceable n None = True"
| "replaceable (Dir es) (Some (Dir ds)) = (ds = [])"
| "replaceable (File c) (Some (File d)) = True"
| "replaceable (Dir es) (Some (File d)) = False"
| "replaceable (File c) (Some (Dir ds)) = False"

definition rename :: "path \<Rightarrow> path \<Rightarrow> unit io" where
  "rename src dst fs =
     (case lookup fs src of None \<Rightarrow> (None, fs)
      | Some n \<Rightarrow>
          if src = dst then (Some (), fs)
          else if \<not> replaceable n (lookup fs dst) then (None, fs)
          else (case remove fs src of None \<Rightarrow> (None, fs)
                | Some fs1 \<Rightarrow>
                    (case put fs1 dst n of None \<Rightarrow> (None, fs)
                     | Some fs2 \<Rightarrow> (Some (), fs2))))"

text \<open>\<^verbatim>\<open>shutil.rmtree(p)\<close>\<close>

definition rmtree :: "path \<Rightarrow> unit io" where
  "rmtree p fs =
     (case lookup fs p of
        Some (Dir es) \<Rightarrow>
          (case remove fs p of None \<Rightarrow> (None, fs) | Some fs' \<Rightarrow> (Some (), fs'))
      | _ \<Rightarrow> (None, fs))"

subsection \<open>Injected failures\<close>

text \<open>
  The statements of \<^verbatim>\<open>setup_game_module\<close> that can raise, and what the environment does
  to each: nothing, make it raise with the file system untouched, or make it raise
  leaving the given entries as the content of the target directory (a partial copy, a
  truncated file, a partial deletion). \<open>OpPrint n\<close> is the \<^verbatim>\<open>print\<close> call of source line
  \<open>n\<close> (a closed or badly encoded standard output makes it raise); the \<open>OpExists\<close>
  operations are the four \<^verbatim>\<open>Path.exists()\<close> tests, which raise on an operating-system
  error other than a missing path (a name that is too long, a directory that may not be
  searched); \<open>OpGlob\<close> is the \<^verbatim>\<open>rglob\<close> call.
\<close>

datatype io_op =
    OpPrint nat | OpExistsTarget | OpCopy | OpExistsBuild | OpReadBuild | OpWriteBuild
  | OpExistsSrc | OpRename | OpGlob | OpReadKt path | OpWriteKt path | OpWriteConfig
  | OpExistsRollback | OpRmtree

datatype fault = NoFault | FailClean | FailLeaving "(name \<times> node) list"

type_synonym env = "io_op \<Rightarrow> fault"

definition no_faults :: env where
  "no_faults = (\<lambda>op. NoFault)"

definition leaving :: "path \<Rightarrow> (name \<times> node) list \<Rightarrow> node \<Rightarrow> node" where
  "leaving root es fs = (case put fs root (Dir es) of None \<Rightarrow> fs | Some fs' \<Rightarrow> fs')"

definition inject :: "env \<Rightarrow> path \<Rightarrow> io_op \<Rightarrow> 'a io \<Rightarrow> 'a io" where
  "inject env root op m fs =
     (case env op of NoFault \<Rightarrow> m fs
      | FailClean \<Rightarrow> (None, fs)
      | FailLeaving es \<Rightarrow> (None, leaving root es fs))"

text \<open>
  A statement that writes nothing leaves the file system as it is when it raises,
  whatever the environment says.
\<close>

definition inject_clean :: "env \<Rightarrow> io_op \<Rightarrow> 'a io \<Rightarrow> 'a io" where
  "inject_clean env op m fs = (case env op of NoFault \<Rightarrow> m fs | _ \<Rightarrow> (None, fs))"

definition return_io :: "'a \<Rightarrow> 'a io" where
  "return_io a fs = (Some a, fs)"

text \<open>\<^verbatim>\<open>print(...)\<close> at a source line, and a run of consecutive \<^verbatim>\<open>print\<close> calls.\<close>

definition print_line :: "env \<Rightarrow> nat \<Rightarrow> unit io" where
  "print_line env n = inject_clean env (OpPrint n) (return_io ())"

fun print_lines :: "env \<Rightarrow> nat list \<Rightarrow> unit io" where
  "print_lines env [] = return_io ()"
| "print_lines env (n # ns) = and_then (print_line env n) (\<lambda>u. print_lines env ns)"

text \<open>\<^verbatim>\<open>p.exists()\<close> as a statement that may raise.\<close>

definition exists_io :: "env \<Rightarrow> io_op \<Rightarrow> path \<Rightarrow> bool io" where
  "exists_io env op p = inject_clean env op (\<lambda>fs. (Some (path_exists fs p), fs))"

text \<open>
  \<^verbatim>\<open>dst_path.rglob("*.kt")\<close>. The loop rewrites the files in place, which does not change
  the set of paths the generator yields, so the paths are listed first; a generator that
  raises part of the way is a failure that leaves some files rewritten.
\<close>

definition rglob_io :: "env \<Rightarrow> path \<Rightarrow> path \<Rightarrow> path list io" where
  "rglob_io env root p =
     inject env root OpGlob
       (\<lambda>fs. (Some (case lookup fs p of None \<Rightarrow> [] | Some n \<Rightarrow> rglob n), fs))"

text \<open>
  \<^verbatim>\<open>shutil.copytree(src, dst)\<close> lists \<open>src\<close> and creates \<open>dst\<close> before it copies anything,
  so a missing \<open>src\<close> and an existing \<open>dst\<close> raise with nothing written.
\<close>

definition copytree :: "env \<Rightarrow> path \<Rightarrow> path \<Rightarrow> unit io" where
  "copytree env src dst fs =
     (case lookup fs src of
        Some (Dir es) \<Rightarrow>
          if path_exists fs dst then (None, fs)
          else inject env dst OpCopy
                 (\<lambda>fs. case makedirs fs dst of None \<Rightarrow> (None, fs)
                       | Some fs1 \<Rightarrow>
                           (case put fs1 dst (Dir es) of None \<Rightarrow> (None, fs1)
                            | Some fs2 \<Rightarrow> (Some (), fs2))) fs
      | _ \<Rightarrow> (None, fs))"

subsection \<open>\<^verbatim>\<open>setup_game_module\<close>\<close>

definition package_dir :: "name \<Rightarrow> path" where
  "package_dir x = [''src'', ''main'', ''kotlin'', ''com'', ''roshni'', ''games'', ''game'', x]"

text \<open>Lines 46 to 65: the build descriptor.\<close>

definition update_build_gradle :: "env \<Rightarrow> path \<Rightarrow> string \<Rightarrow> unit io" where
  "update_build_gradle env game_path game_id =
     (let build_gradle_path = game_path @ [''build.gradle.kts''] in
      and_then (exists_io env OpExistsBuild build_gradle_path) (\<lambda>e.
        if e then
          and_then (inject env game_path OpReadBuild (read_file build_gradle_path))
            (\<lambda>content.
          and_then (inject env game_path OpWriteBuild
                      (write_file build_gradle_path (rewrite_build game_id content))) (\<lambda>u.
          print_line env 65))
        else return_io ()))"

text \<open>Lines 67 to 74: the package directory.\<close>

definition update_package_structure :: "env \<Rightarrow> path \<Rightarrow> string \<Rightarrow> unit io" where
  "update_package_structure env game_path game_id =
     (let src_path = game_path @ package_dir ''template'';
          dst_path = game_path @ package_dir game_id in
      and_then (exists_io env OpExistsSrc src_path) (\<lambda>e.
        if e then
          and_then (inject env game_path OpRename (rename src_path dst_path)) (\<lambda>u.
          print_line env 74)
        else return_io ()))"

text \<open>Lines 76 to 96: the loop over the Kotlin files.\<close>

fun rewrite_kotlin_files :: "env \<Rightarrow> path \<Rightarrow> string \<Rightarrow> path \<Rightarrow> path list \<Rightarrow> unit io" where
  "rewrite_kotlin_files env game_path game_id dst_path [] fs = (Some (), fs)"
| "rewrite_kotlin_files env game_path game_id dst_path (p # ps) fs =
     (case inject env game_path (OpReadKt p) (read_file (dst_path @ p)) fs of
        (None, fs1) \<Rightarrow> (None, fs1)
      | (Some content, fs1) \<Rightarrow>
          (case inject env game_path (OpWriteKt p)
                  (write_file (dst_path @ p) (rewrite_kotlin game_id content)) fs1 of
             (None, fs2) \<Rightarrow> (None, fs2)
           | (Some u, fs2) \<Rightarrow> rewrite_kotlin_files env game_path game_id dst_path ps fs2))"

definition update_kotlin_files :: "env \<Rightarrow> path \<Rightarrow> string \<Rightarrow> unit io" where
  "update_kotlin_files env game_path game_id =
     (let dst_path = game_path @ package_dir game_id in
      and_then (rglob_io env game_path dst_path) (\<lambda>kotlin_files.
      and_then (rewrite_kotlin_files env game_path game_id dst_path kotlin_files) (\<lambda>u.
      print_line env 96)))"

text \<open>Lines 98 to 124: the generated configuration and the closing messages.\<close>

definition create_game_config :: "env \<Rightarrow> path \<Rightarrow> string \<Rightarrow> string \<Rightarrow> string \<Rightarrow> unit io" where
  "create_game_config env game_path game_id game_name category =
     (let config_file = game_path @ package_dir game_id @ [''GameConfig.kt''] in
      and_then (inject env game_path OpWriteConfig
                  (write_file config_file (config_content game_id game_name category))) (\<lambda>u.
      print_lines env [116, 118, 119, 120, 121, 122, 123, 124]))"

text \<open>The body of the \<^verbatim>\<open>try\<close> statement, lines 42 to 126.\<close>

definition try_body ::
  "env \<Rightarrow> path \<Rightarrow> path \<Rightarrow> string \<Rightarrow> string \<Rightarrow> string \<Rightarrow> unit io" where
  "try_body env template_path game_path game_id game_name category =
     and_then (copytree env template_path game_path) (\<lambda>u.
     and_then (print_line env 44) (\<lambda>u.
     and_then (update_build_gradle env game_path game_id) (\<lambda>u.
     and_then (update_package_structure env game_path game_id) (\<lambda>u.
     and_then (update_kotlin_files env game_path game_id) (\<lambda>u.
     create_game_config env game_path game_id game_name category)))))"

text \<open>
  The handler, lines 128 to 133. Nothing catches what it raises itself: its \<^verbatim>\<open>print\<close>,
  its \<^verbatim>\<open>exists()\<close> test and its \<^verbatim>\<open>shutil.rmtree\<close>.
\<close>

definition rollback :: "env \<Rightarrow> path \<Rightarrow> bool io" where
  "rollback env game_path =
     and_then (print_line env 129) (\<lambda>u.
     and_then (exists_io env OpExistsRollback game_path) (\<lambda>e.
       if e then
         and_then (inject env game_path OpRmtree (rmtree game_path)) (\<lambda>u. return_io False)
       else return_io False))"

text \<open>The \<^verbatim>\<open>try\<close> statement: what the body raises goes to the handler.\<close>

definition try_except ::
  "env \<Rightarrow> path \<Rightarrow> path \<Rightarrow> string \<Rightarrow> string \<Rightarrow> string \<Rightarrow> bool io" where
  "try_except env template_path game_path game_id game_name category fs =
     (case try_body env template_path game_path game_id game_name category fs of
        (Some u, fs') \<Rightarrow> (Some True, fs')
      | (None, fs') \<Rightarrow> rollback env game_path fs')"

text \<open>
  The function: the three messages of lines 27 to 29, the test of line 37 with its
  message and \<^verbatim>\<open>return False\<close>, then the \<^verbatim>\<open>try\<close> statement. \<open>None\<close> is an exception
  that leaves the function.
\<close>

definition setup_io :: "env \<Rightarrow> string \<Rightarrow> string \<Rightarrow> string \<Rightarrow> path \<Rightarrow> bool io" where
  "setup_io env game_id game_name category base_path =
     (let template_path = base_path @ [''template''];
          game_path = base_path @ [game_id] in
      and_then (print_lines env [27, 28, 29]) (\<lambda>u.
      and_then (exists_io env OpExistsTarget game_path) (\<lambda>e.
        if e then and_then (print_line env 38) (\<lambda>u. return_io False)
        else try_except env template_path game_path game_id game_name category)))"

text \<open>The call either returns a boolean or lets an exception escape.\<close>

datatype outcome = Returned bool | Raised

definition setup_game_module ::
  "env \<Rightarrow> node \<Rightarrow> string \<Rightarrow> string \<Rightarrow> string \<Rightarrow> path \<Rightarrow> outcome \<times> node" where
  "setup_game_module env fs game_id game_name category base_path =
     (case setup_io env game_id game_name category base_path fs of
        (Some b, fs') \<Rightarrow> (Returned b, fs')
      | (None, fs') \<Rightarrow> (Raised, fs'))"

text \<open>
  The statements outside the \<^verbatim>\<open>try\<close> block do not raise: those before it, and the
  handler's message and test.
\<close>

definition preamble_quiet :: "env \<Rightarrow> bool" where
  "preamble_quiet env \<longleftrightarrow>
     env (OpPrint 27) = NoFault \<and> env (OpPrint 28) = NoFault \<and> env (OpPrint 29) = NoFault \<and>
     env OpExistsTarget = NoFault \<and> env (OpPrint 38) = NoFault"

definition handler_quiet :: "env \<Rightarrow> bool" where
  "handler_quiet env \<longleftrightarrow> env (OpPrint 129) = NoFault \<and> env OpExistsRollback = NoFault"

text \<open>
  The ids for which \<^verbatim>\<open>Path(base_path) / game_id\<close> is \<open>base_path\<close> with the one component
  \<open>game_id\<close> appended.
\<close>

definition safe_token :: "string \<Rightarrow> bool" where
  "safe_token s =
     (s \<noteq> [] \<and> s \<noteq> ''.'' \<and> s \<noteq> ''..'' \<and> CHR ''/'' \<notin> set s \<and> CHR 0x00 \<notin> set s)"

text \<open>
  The ids on which \<open>type_name\<close> is \<^verbatim>\<open>str.title()\<close>: Python converts the case of code
  points of any script, the model that of ASCII letters.
\<close>

definition ascii_only :: "string \<Rightarrow> bool" where
  "ascii_only s = list_all (\<lambda>c. (of_char c :: nat) < 128) s"

subsection \<open>The derived-name rule as the specification words it\<close>

text \<open>
  The specification describes the type-name fragment as: split the id at \<^verbatim>\<open>-\<close> and
  \<^verbatim>\<open>_\<close>, capitalise the first character of each non-empty segment, change nothing
  else, and concatenate. \<open>spec_type_name\<close> follows these words, to be compared with
  \<open>type_name\<close>, which follows the code. \<open>camel\<close> is the same rule as one pass over the
  id; it only serves the proof.
\<close>

definition is_sep :: "char \<Rightarrow> bool" where
  "is_sep c = (c = CHR ''-'' \<or> c = CHR ''_'')"

fun split_seps :: "string \<Rightarrow> string list" where
  "split_seps [] = [[]]"
| "split_seps (c # cs) =
     (if is_sep c then [] # split_seps cs
      else (case split_seps cs of [] \<Rightarrow> [[c]] | seg # segs \<Rightarrow> (c # seg) # segs))"

fun capitalize_first :: "string \<Rightarrow> string" where
  "capitalize_first [] = []"
| "capitalize_first (c # cs) = to_upper c # cs"

definition spec_type_name :: "string \<Rightarrow> string" where
  "spec_type_name game_id =
     concat (map capitalize_first (filter (\<lambda>seg. seg \<noteq> []) (split_seps game_id)))"

definition id_char :: "char \<Rightarrow> bool" where
  "id_char c = (is_lower c \<or> is_digit c \<or> is_sep c)"

fun letter_after_digit :: "string \<Rightarrow> bool" where
  "letter_after_digit (c # d # ds) = ((is_digit c \<and> is_cased d) \<or> letter_after_digit (d # ds))"
| "letter_after_digit cs = False"

fun camel :: "bool \<Rightarrow> string \<Rightarrow> string" where
  "camel start [] = []"
| "camel start (c # cs) =
     (if is_sep c then camel True cs
      else (if start then to_upper c else c) # camel False cs)"

subsection \<open>Auxiliary notions for the proofs\<close>

text \<open>
  \<open>confined g fs fs'\<close>: going from \<open>fs\<close> to \<open>fs'\<close> changed nothing at the paths that
  neither lie under \<open>g\<close> nor are ancestors of \<open>g\<close>, and did not turn \<open>g\<close> into a file.
  \<open>confines g m\<close>: every run of the operation \<open>m\<close> is confined to \<open>g\<close>.
\<close>

definition dir_or_absent :: "node \<Rightarrow> path \<Rightarrow> bool" where
  "dir_or_absent fs p = (case lookup fs p of Some (File c) \<Rightarrow> False | _ \<Rightarrow> True)"

definition confined :: "path \<Rightarrow> node \<Rightarrow> node \<Rightarrow> bool" where
  "confined g fs fs' \<longleftrightarrow>
     (\<forall>q. g \<parallel> q \<longrightarrow> lookup fs' q = lookup fs q) \<and>
     (dir_or_absent fs g \<longrightarrow> dir_or_absent fs' g)"

definition confines :: "path \<Rightarrow> 'a io \<Rightarrow> bool" where
  "confines g m \<longleftrightarrow> (\<forall>fs r fs'. m fs = (r, fs') \<longrightarrow> confined g fs fs')"

text \<open>\<^verbatim>\<open>Path.is_dir()\<close>\<close>

definition is_dir :: "node \<Rightarrow> path \<Rightarrow> bool" where
  "is_dir fs p = (case lookup fs p of Some (Dir es) \<Rightarrow> True | _ \<Rightarrow> False)"

text \<open>\<open>succeeds_alike m m0\<close>: whenever \<open>m\<close> returns, \<open>m0\<close> returns the same.\<close>

definition succeeds_alike :: "'a io \<Rightarrow> 'a io \<Rightarrow> bool" where
  "succeeds_alike m m0 \<longleftrightarrow> (\<forall>fs a fs'. m fs = (Some a, fs') \<longrightarrow> m0 fs = (Some a, fs'))"

subsection \<open>Example inputs\<close>

text \<open>
  A template with a build descriptor and one Kotlin file in the package directory, a file
  system that holds it as \<^verbatim>\<open>game/template\<close>, and the file system after a run with the
  id \<^verbatim>\<open>puzzle-007\<close>.
\<close>

fun nest :: "path \<Rightarrow> node \<Rightarrow> node" where
  "nest [] n = n"
| "nest (x # xs) n = Dir [(x, nest xs n)]"

definition example_template :: node where
  "example_template = Dir
     [(''build.gradle.kts'',
         File ''namespace = com.roshni.games.game.GAME_ID; id = MY_GAME_ID_X''),
      (''src'', nest [''main'', ''kotlin'', ''com'', ''roshni'', ''games'', ''game'']
         (Dir [(''template'', Dir
            [(''TemplateGame.kt'',
                File ''package com.roshni.games.game.template; import com.roshni.games.game.template.util.X; class TemplateGame : BaseTemplateX'')])]))]"

definition example_fs :: node where
  "example_fs = Dir [(''game'', Dir [(''template'', example_template)])]"

definition example_result :: node where
  "example_result =
     snd (setup_game_module no_faults example_fs ''puzzle-007'' ''Amazing Puzzle'' ''puzzle'' [''game''])"

text \<open>An environment in which \<^verbatim>\<open>os.rename\<close> and \<^verbatim>\<open>shutil.rmtree\<close> raise.\<close>

definition rename_and_rmtree_fail :: env where
  "rename_and_rmtree_fail = (\<lambda>op. NoFault)(OpRename := FailClean, OpRmtree := FailClean)"

text \<open>The content of the plain file at a path, if there is one.\<close>

definition file_at :: "node \<Rightarrow> path \<Rightarrow> string option" where
  "file_at fs p = (case lookup fs p of Some (File c) \<Rightarrow> Some c | _ \<Rightarrow> None)"

text \<open>An environment in which only \<^verbatim>\<open>os.rename\<close> raises.\<close>

definition rename_fails :: env where
  "rename_fails = (\<lambda>op. NoFault)(OpRename := FailClean)"

text \<open>A template that has a build descriptor but no source directory.\<close>

definition template_without_sources :: node where
  "template_without_sources = Dir [(''build.gradle.kts'', File ''id = GAME_ID'')]"

definition fs_without_sources :: node where
  "fs_without_sources = Dir [(''game'', Dir [(''template'', template_without_sources)])]"

text \<open>The example template without its build descriptor.\<close>

definition fs_without_build :: node where
  "fs_without_build = Dir [(''game'', Dir [(''template'',
     Dir [(''src'', nest [''main'', ''kotlin'', ''com'', ''roshni'', ''games'', ''game'']
       (Dir [(''template'', Dir [(''TemplateGame.kt'', File ''class TemplateGame'')])]))])])]"

text \<open>
  An environment in which the \<^verbatim>\<open>exists()\<close> test of line 37 raises, and one in which the
  messages of lines 44 and 129 cannot be written (a console that cannot encode their
  symbols).
\<close>

definition exists_test_fails :: env where
  "exists_test_fails = (\<lambda>op. NoFault)(OpExistsTarget := FailClean)"

definition console_cannot_encode :: env where
  "console_cannot_encode = (\<lambda>op. NoFault)(OpPrint 44 := FailClean, OpPrint 129 := FailClean)"

text \<open>
  The names in a directory are distinct, at every level. The claims about the rewritten
  files are stated for such file systems: there \<open>rglob\<close> yields every path once.
\<close>

fun wf_node :: "node \<Rightarrow> bool" and wf_entries :: "(name \<times> node) list \<Rightarrow> bool" where
  "wf_node (File c) = True"
| "wf_node (Dir es) = (distinct (map fst es) \<and> wf_entries es)"
| "wf_entries [] = True"
| "wf_entries ((x, n) # es) = (wf_node n \<and> wf_entries es)"

text \<open>
  \<open>recreates old new\<close>: putting \<open>new\<close> in the place of \<open>old\<close> can bring \<open>old\<close> back,
  because \<open>new\<close> contains \<open>old\<close> or ends with a non-empty proper prefix of it.
\<close>

definition recreates :: "string \<Rightarrow> string \<Rightarrow> bool" where
  "recreates old new \<longleftrightarrow>
     sublist old new \<or> list_ex (\<lambda>k. suffix (take k old) new) [1..<length old]"

text \<open>
  A template whose only Kotlin file has the type-name token inside a broken copy of
  itself.
\<close>

definition split_token_fs :: node where
  "split_token_fs = Dir [(''game'', Dir [(''template'',
     Dir [(''src'', nest [''main'', ''kotlin'', ''com'', ''roshni'', ''games'', ''game'']
       (Dir [(''template'', Dir [(''A.kt'', File ''class TemTemplateplate'')])]))])])]"

section \<open>Properties\<close>

subsection \<open>The derived type name\<close>

lemma str_replace_char:
  "str_replace [a] [b] s = map (\<lambda>c. if c = a then b else c) s"
  by (induction s) (auto simp: str_replace_def)

lemma str_replace_delete_char:
  "str_replace [a] [] s = filter (\<lambda>c. c \<noteq> a) s"
  by (induction s) (auto simp: str_replace_def)

lemma type_name_alt:
  "type_name s = filter (\<lambda>c. c \<noteq> CHR ''_'')
     (title_from False (map (\<lambda>c. if c = CHR ''-'' then CHR ''_'' else c) s))"
  by (simp add: type_name_def title_def str_replace_char str_replace_delete_char)

lemma to_upper_lower_neq_us: "is_lower c \<Longrightarrow> to_upper c \<noteq> CHR ''_''"
proof
  assume l: "is_lower c" and e: "to_upper c = CHR ''_''"
  from l e have "char_of ((of_char c :: nat) - 32) = CHR ''_''"
    by (simp add: to_upper_def)
  then have "(of_char (char_of ((of_char c :: nat) - 32) :: char) :: nat) = of_char (CHR ''_'')"
    by simp
  then have m: "((of_char c :: nat) - 32) mod 256 = 95"
    by (simp add: of_char_of)
  from l have "(of_char c :: nat) - 32 < 256"
    unfolding is_lower_def by arith
  with m have "(of_char c :: nat) - 32 = 95"
    by simp
  with l show False
    unfolding is_lower_def by arith
qed

lemma sep_us_facts:
  "\<not> is_lower (CHR ''_'')" "\<not> is_upper (CHR ''_'')" "\<not> is_lower (CHR ''-'')" "\<not> is_upper (CHR ''-'')"
  by (simp_all add: is_lower_def is_upper_def)

lemma lower_facts:
  "is_lower c \<Longrightarrow> \<not> is_upper c \<and> \<not> is_digit c \<and> \<not> is_sep c \<and> c \<noteq> CHR ''_'' \<and> c \<noteq> CHR ''-''"
  by (auto simp: is_lower_def is_upper_def is_digit_def is_sep_def)

lemma digit_facts:
  "is_digit c \<Longrightarrow> \<not> is_upper c \<and> \<not> is_lower c \<and> \<not> is_sep c \<and> c \<noteq> CHR ''_'' \<and> c \<noteq> CHR ''-''"
  by (auto simp: is_lower_def is_upper_def is_digit_def is_sep_def)

lemma title_camel:
  "list_all id_char s \<Longrightarrow> \<not> letter_after_digit s \<Longrightarrow> (prev \<longrightarrow> \<not> start) \<Longrightarrow>
   (\<not> prev \<and> \<not> start \<longrightarrow> s = [] \<or> \<not> is_lower (hd s)) \<Longrightarrow>
   filter (\<lambda>c. c \<noteq> CHR ''_'')
     (title_from prev (map (\<lambda>c. if c = CHR ''-'' then CHR ''_'' else c) s)) = camel start s"
proof (induction s arbitrary: prev start)
  case Nil
  then show ?case by simp
next
  case (Cons c cs)
  have nlad: "\<not> letter_after_digit cs"
    using Cons.prems(2) by (cases cs) auto
  have dom: "list_all id_char cs" and c: "id_char c"
    using Cons.prems(1) by auto
  consider (sep) "is_sep c" | (low) "is_lower c" | (dig) "is_digit c"
    using c by (auto simp: id_char_def)
  then show ?case
  proof cases
    case sep
    have "filter (\<lambda>c. c \<noteq> CHR ''_'')
            (title_from False (map (\<lambda>c. if c = CHR ''-'' then CHR ''_'' else c) cs)) = camel True cs"
      by (rule Cons.IH [OF dom nlad]) auto
    with sep show ?thesis
      by (auto simp: is_sep_def to_upper_def to_lower_def is_cased_def sep_us_facts)
  next
    case low
    note lf = lower_facts [OF low]
    have ih: "filter (\<lambda>c. c \<noteq> CHR ''_'')
            (title_from True (map (\<lambda>c. if c = CHR ''-'' then CHR ''_'' else c) cs)) = camel False cs"
      by (rule Cons.IH [OF dom nlad]) auto
    from low lf Cons.prems(3,4) ih show ?thesis
      by (auto simp: to_lower_def is_cased_def to_upper_lower_neq_us)
  next
    case dig
    note df = digit_facts [OF dig]
    have nxt: "cs = [] \<or> \<not> is_lower (hd cs)"
      using Cons.prems(2) dig by (cases cs) (auto simp: is_cased_def)
    have ih: "filter (\<lambda>c. c \<noteq> CHR ''_'')
            (title_from False (map (\<lambda>c. if c = CHR ''-'' then CHR ''_'' else c) cs)) = camel False cs"
      by (rule Cons.IH [OF dom nlad]) (use nxt in auto)
    from dig df ih show ?thesis
      by (auto simp: to_lower_def to_upper_def is_cased_def)
  qed
qed

lemma split_seps_nonempty: "split_seps s \<noteq> []"
  by (induction s) (auto split: list.splits)

lemma concat_capitalize_filter:
  "concat (map capitalize_first (filter (\<lambda>seg. seg \<noteq> []) l)) = concat (map capitalize_first l)"
  by (induction l) auto

lemma split_camel:
  "split_seps s = seg # segs \<Longrightarrow>
   camel False s = seg @ concat (map capitalize_first segs) \<and>
   camel True s = capitalize_first seg @ concat (map capitalize_first segs)"
proof (induction s arbitrary: seg segs)
  case Nil
  then show ?case by simp
next
  case (Cons c cs)
  obtain seg' segs' where sp: "split_seps cs = seg' # segs'"
    using split_seps_nonempty [of cs] by (cases "split_seps cs") auto
  note ih = Cons.IH [OF sp]
  show ?case
  proof (cases "is_sep c")
    case True
    with Cons.prems sp have "seg = []" "segs = seg' # segs'" by auto
    with True ih show ?thesis by simp
  next
    case False
    with Cons.prems sp have "seg = c # seg'" "segs = segs'" by auto
    with False ih show ?thesis by simp
  qed
qed

lemma spec_type_name_camel: "spec_type_name s = camel True s"
proof -
  obtain seg segs where sp: "split_seps s = seg # segs"
    using split_seps_nonempty [of s] by (cases "split_seps s") auto
  show ?thesis
    using split_camel [OF sp] by (simp add: spec_type_name_def concat_capitalize_filter sp)
qed

text \<open>
  Claim C2, as amended. For every id made of lower-case letters, digits, \<^verbatim>\<open>-\<close> and
  \<^verbatim>\<open>_\<close> in which no letter directly follows a digit, the type-name fragment computed by
  the code is the one the rule of the specification gives: the id split at the
  separators, the first character of each non-empty segment capitalised, the segments
  concatenated.
\<close>

theorem derived_name_rule:
  assumes "list_all id_char game_id" and "\<not> letter_after_digit game_id"
  shows "type_name game_id = spec_type_name game_id"
  using title_camel [OF assms, of False True]
  by (simp add: type_name_alt spec_type_name_camel)

text \<open>The rule at \<^verbatim>\<open>arcade-ball_99\<close>, which gives \<^verbatim>\<open>ArcadeBall99\<close>.\<close>

theorem derived_name_rule_witness:
  "list_all id_char ''arcade-ball_99'' \<and> \<not> letter_after_digit ''arcade-ball_99'' \<and>
   type_name ''arcade-ball_99'' = spec_type_name ''arcade-ball_99'' \<and>
   type_name ''arcade-ball_99'' = ''ArcadeBall99''"
proof -
  have a: "list_all id_char ''arcade-ball_99''" by code_simp
  have b: "\<not> letter_after_digit ''arcade-ball_99''" by code_simp
  have c: "type_name ''arcade-ball_99'' = ''ArcadeBall99''" by code_simp
  from a b c derived_name_rule [OF a b] show ?thesis by simp
qed

text \<open>
  Without the restriction the two differ: \<^verbatim>\<open>str.title()\<close> also capitalises a letter that
  follows a digit, so the code turns \<^verbatim>\<open>a1b\<close> into \<^verbatim>\<open>A1B\<close> where the rule of the
  specification gives \<^verbatim>\<open>A1b\<close>.
\<close>

theorem derived_name_rule_counterexample:
  "list_all id_char ''a1b'' \<and> type_name ''a1b'' = ''A1B'' \<and> spec_type_name ''a1b'' = ''A1b''"
  by code_simp

subsection \<open>Looking up after an update\<close>

lemma lookup_append:
  "lookup fs (p @ q) = (case lookup fs p of None \<Rightarrow> None | Some n \<Rightarrow> lookup n q)"
proof (induction p arbitrary: fs)
  case Nil
  then show ?case by simp
next
  case (Cons x p)
  then show ?case by (cases fs) (auto split: option.splits)
qed

lemma lookup_prefix_exists:
  "lookup fs (p @ q) = Some n \<Longrightarrow> \<exists>m. lookup fs p = Some m"
  by (simp add: lookup_append split: option.splits)

lemma lookup_below_file:
  "lookup fs p = Some (File c) \<Longrightarrow> q \<noteq> [] \<Longrightarrow> lookup fs (p @ q) = None"
  by (cases q) (simp_all add: lookup_append)

lemma lookup_below_absent:
  "lookup fs p = None \<Longrightarrow> lookup fs (p @ q) = None"
  by (simp add: lookup_append)

lemma put_same:
  "put fs p t = Some fs' \<Longrightarrow> lookup fs' p = Some t"
  by (induction fs p t arbitrary: fs' rule: put.induct)
     (auto split: option.splits simp: update_conv)

lemma put_below:
  "put fs p t = Some fs' \<Longrightarrow> lookup fs' (p @ q) = lookup t q"
  by (simp add: lookup_append put_same)

lemma put_parallel:
  "put fs p t = Some fs' \<Longrightarrow> p \<parallel> q \<Longrightarrow> lookup fs' q = lookup fs q"
proof (induction fs p t arbitrary: fs' q rule: put.induct)
  case (1 n t)
  then show ?case by simp
next
  case (2 c x xs t)
  then show ?case by simp
next
  case (3 es x t)
  then show ?case by (cases q) (auto simp: update_conv)
next
  case (4 es x y ys t)
  from "4.prems"(2) obtain z s where q: "q = z # s" by (cases q) auto
  from "4.prems"(1) obtain n n' where n: "map_of es x = Some n"
    and n': "put n (y # ys) t = Some n'" and fs': "fs' = Dir (AList.update x n' es)"
    by (auto split: option.splits)
  show ?case
  proof (cases "z = x")
    case True
    with "4.prems"(2) q have "(y # ys) \<parallel> s" by (auto simp: parallel_def)
    from "4.IH" [OF n n' this] show ?thesis
      using True q n fs' by (simp add: update_conv)
  next
    case False
    then show ?thesis using q fs' by (simp add: update_conv)
  qed
qed

lemma put_ancestor:
  "put fs p t = Some fs' \<Longrightarrow> strict_prefix q p \<Longrightarrow>
   (\<exists>es. lookup fs q = Some (Dir es)) \<and> (\<exists>es. lookup fs' q = Some (Dir es))"
proof (induction fs p t arbitrary: fs' q rule: put.induct)
  case (1 n t)
  then show ?case by simp
next
  case (2 c x xs t)
  then show ?case by simp
next
  case (3 es x t)
  then have "q = []" by (cases q) (auto simp: strict_prefix_def)
  with 3 show ?case by auto
next
  case (4 es x y ys t)
  from "4.prems"(1) obtain n n' where n: "map_of es x = Some n"
    and n': "put n (y # ys) t = Some n'" and fs': "fs' = Dir (AList.update x n' es)"
    by (auto split: option.splits)
  show ?case
  proof (cases q)
    case Nil
    then show ?thesis using fs' by simp
  next
    case (Cons z s)
    with "4.prems"(2) have z: "z = x" and s: "strict_prefix s (y # ys)"
      by (auto simp: strict_prefix_def)
    from "4.IH" [OF n n' s] show ?thesis
      using Cons z n fs' by (simp add: update_conv)
  qed
qed

lemma remove_same:
  "remove fs p = Some fs' \<Longrightarrow> lookup fs' p = None"
  by (induction fs p arbitrary: fs' rule: remove.induct)
     (auto split: option.splits if_splits simp: update_conv delete_conv)

lemma remove_below:
  "remove fs p = Some fs' \<Longrightarrow> lookup fs' (p @ q) = None"
  by (simp add: lookup_append remove_same)

lemma remove_parallel:
  "remove fs p = Some fs' \<Longrightarrow> p \<parallel> q \<Longrightarrow> lookup fs' q = lookup fs q"
proof (induction fs p arbitrary: fs' q rule: remove.induct)
  case (1 n)
  then show ?case by simp
next
  case (2 c x xs)
  then show ?case by simp
next
  case (3 es x)
  then show ?case by (cases q) (auto simp: delete_conv split: if_splits)
next
  case (4 es x y ys)
  from "4.prems"(2) obtain z s where q: "q = z # s" by (cases q) auto
  from "4.prems"(1) obtain n n' where n: "map_of es x = Some n"
    and n': "remove n (y # ys) = Some n'" and fs': "fs' = Dir (AList.update x n' es)"
    by (auto split: option.splits)
  show ?case
  proof (cases "z = x")
    case True
    with "4.prems"(2) q have "(y # ys) \<parallel> s" by (auto simp: parallel_def)
    from "4.IH" [OF n n' this] show ?thesis
      using True q n fs' by (simp add: update_conv)
  next
    case False
    then show ?thesis using q fs' by (simp add: update_conv)
  qed
qed

lemma remove_ancestor:
  "remove fs p = Some fs' \<Longrightarrow> strict_prefix q p \<Longrightarrow> \<exists>es. lookup fs' q = Some (Dir es)"
proof (induction fs p arbitrary: fs' q rule: remove.induct)
  case (1 n)
  then show ?case by simp
next
  case (2 c x xs)
  then show ?case by simp
next
  case (3 es x)
  then have "q = []" by (cases q) (auto simp: strict_prefix_def)
  with 3 show ?case by (auto split: if_splits)
next
  case (4 es x y ys)
  from "4.prems"(1) obtain n n' where n: "map_of es x = Some n"
    and n': "remove n (y # ys) = Some n'" and fs': "fs' = Dir (AList.update x n' es)"
    by (auto split: option.splits)
  show ?case
  proof (cases q)
    case Nil
    then show ?thesis using fs' by simp
  next
    case (Cons z s)
    with "4.prems"(2) have z: "z = x" and s: "strict_prefix s (y # ys)"
      by (auto simp: strict_prefix_def)
    from "4.IH" [OF n n' s] show ?thesis
      using Cons z n fs' by (simp add: update_conv)
  qed
qed

lemma remove_succeeds:
  "lookup fs p = Some n \<Longrightarrow> p \<noteq> [] \<Longrightarrow> \<exists>fs'. remove fs p = Some fs'"
proof (induction fs p arbitrary: n rule: remove.induct)
  case (1 n)
  then show ?case by simp
next
  case (2 c x xs)
  then show ?case by simp
next
  case (3 es x)
  then show ?case by (auto split: option.splits)
next
  case (4 es x y ys)
  from "4.prems"(1) obtain m where m: "map_of es x = Some m" and l: "lookup m (y # ys) = Some n"
    by (auto split: option.splits)
  from "4.IH" [OF m l] m show ?case by auto
qed

lemma lookup_mkchain_diverge:
  "x \<noteq> y \<Longrightarrow> lookup (mkchain (p @ x # r)) (p @ y # s) = None"
  by (induction p) auto

lemma mkchain_parallel:
  "p \<parallel> q \<Longrightarrow> lookup (mkchain p) q = None"
proof -
  assume "p \<parallel> q"
  then obtain as b bs c cs where "b \<noteq> c" "p = as @ b # bs" "q = as @ c # cs"
    using parallel_decomp by blast
  then show ?thesis by (simp add: lookup_mkchain_diverge)
qed

lemma makedirs_parallel:
  "makedirs fs p = Some fs' \<Longrightarrow> p \<parallel> q \<Longrightarrow> lookup fs' q = lookup fs q"
proof (induction fs p arbitrary: fs' q rule: makedirs.induct)
  case (1 n)
  then show ?case by simp
next
  case (2 c x xs)
  then show ?case by simp
next
  case (3 es x xs)
  from "3.prems"(2) obtain z s where q: "q = z # s" by (cases q) auto
  show ?case
  proof (cases "map_of es x")
    case None
    with "3.prems"(1) have fs': "fs' = Dir (es @ [(x, mkchain xs)])" by simp
    show ?thesis
    proof (cases "z = x")
      case True
      with "3.prems"(2) q have "xs \<parallel> s" by (auto simp: parallel_def)
      then have "lookup (mkchain xs) s = None" by (rule mkchain_parallel)
      with True q fs' None show ?thesis by (simp add: map_add_def)
    next
      case False
      with q fs' show ?thesis by (simp add: map_add_def split: option.splits)
    qed
  next
    case (Some n)
    with "3.prems"(1) obtain n' where n': "makedirs n xs = Some n'"
      and fs': "fs' = Dir (AList.update x n' es)"
      by (auto split: option.splits)
    show ?thesis
    proof (cases "z = x")
      case True
      with "3.prems"(2) q have "xs \<parallel> s" by (auto simp: parallel_def)
      from "3.IH" [OF Some n' this] show ?thesis
        using True q Some fs' by (simp add: update_conv)
    next
      case False
      then show ?thesis using q fs' by (simp add: update_conv)
    qed
  qed
qed

lemma lookup_mkchain_same: "lookup (mkchain p) p = Some (Dir [])"
  by (induction p) auto

lemma makedirs_same:
  "makedirs fs p = Some fs' \<Longrightarrow> lookup fs' p = Some (Dir [])"
proof (induction fs p arbitrary: fs' rule: makedirs.induct)
  case (1 n)
  then show ?case by simp
next
  case (2 c x xs)
  then show ?case by simp
next
  case (3 es x xs)
  show ?case
  proof (cases "map_of es x")
    case None
    with "3.prems" show ?thesis by (auto simp: map_add_def lookup_mkchain_same)
  next
    case (Some n)
    with "3.prems" obtain n' where n': "makedirs n xs = Some n'"
      and fs': "fs' = Dir (AList.update x n' es)"
      by (auto split: option.splits)
    from "3.IH" [OF Some n'] fs' show ?thesis by (simp add: update_conv)
  qed
qed

subsection \<open>Every write stays under the target directory\<close>

lemma confined_refl: "confined g fs fs"
  by (simp add: confined_def)

lemma confined_trans: "confined g fs fs1 \<Longrightarrow> confined g fs1 fs2 \<Longrightarrow> confined g fs fs2"
  by (simp add: confined_def)

lemma confinesD: "confines g m \<Longrightarrow> m fs = (r, fs') \<Longrightarrow> confined g fs fs'"
  by (simp add: confines_def)

lemma confines_return: "confines g (\<lambda>fs. (r, fs))"
  by (simp add: confines_def confined_refl)

lemma confines_and_then:
  assumes "confines g m" and "\<And>a. confines g (f a)"
  shows "confines g (and_then m f)"
  unfolding confines_def
proof (intro allI impI)
  fix fs r fs'
  assume run: "and_then m f fs = (r, fs')"
  obtain r1 fs1 where m: "m fs = (r1, fs1)" by (cases "m fs")
  have c1: "confined g fs fs1" using assms(1) m by (rule confinesD)
  show "confined g fs fs'"
  proof (cases r1)
    case None
    with run m have "fs' = fs1" by (simp add: and_then_def)
    with c1 show ?thesis by simp
  next
    case (Some a)
    with run m have "f a fs1 = (r, fs')" by (simp add: and_then_def)
    with assms(2) have "confined g fs1 fs'" by (rule confinesD)
    with c1 show ?thesis by (rule confined_trans)
  qed
qed

lemma dir_after_put_below:
  assumes "put fs (g @ x # r) t = Some fs'"
  shows "dir_or_absent fs' g"
proof -
  have "strict_prefix g (g @ x # r)" by (simp add: strict_prefix_def)
  from put_ancestor [OF assms this] show ?thesis by (auto simp: dir_or_absent_def)
qed

lemma confined_put_below:
  assumes "put fs (g @ x # r) t = Some fs'"
  shows "confined g fs fs'"
  unfolding confined_def
proof (intro conjI allI impI)
  fix q assume "g \<parallel> q"
  then have "(g @ x # r) \<parallel> (q @ [])" by (rule parallel_append)
  then show "lookup fs' q = lookup fs q" using put_parallel [OF assms] by simp
next
  show "dir_or_absent fs' g" using assms by (rule dir_after_put_below)
qed

lemma confined_put_root:
  assumes "put fs g (Dir es) = Some fs'"
  shows "confined g fs fs'"
  unfolding confined_def
  using put_parallel [OF assms] put_same [OF assms] by (simp add: dir_or_absent_def)

lemma confined_remove_root:
  assumes "remove fs g = Some fs'"
  shows "confined g fs fs'"
  unfolding confined_def
  using remove_parallel [OF assms] remove_same [OF assms] by (simp add: dir_or_absent_def)

lemma confined_remove_below:
  assumes "remove fs (g @ x # r) = Some fs'"
  shows "confined g fs fs'"
  unfolding confined_def
proof (intro conjI allI impI)
  fix q assume "g \<parallel> q"
  then have "(g @ x # r) \<parallel> (q @ [])" by (rule parallel_append)
  then show "lookup fs' q = lookup fs q" using remove_parallel [OF assms] by simp
next
  have "strict_prefix g (g @ x # r)" by (simp add: strict_prefix_def)
  from remove_ancestor [OF assms this] show "dir_or_absent fs' g"
    by (auto simp: dir_or_absent_def)
qed

lemma confined_leaving: "confined g fs (leaving g es fs)"
  by (auto simp: leaving_def confined_refl confined_put_root split: option.splits)

lemma confines_inject:
  assumes "confines g m"
  shows "confines g (inject env g op m)"
  unfolding confines_def
proof (intro allI impI)
  fix fs r fs'
  assume "inject env g op m fs = (r, fs')"
  then show "confined g fs fs'"
    using assms
    by (cases "env op") (auto simp: inject_def confined_refl confined_leaving dest: confinesD)
qed

lemma confines_read_file: "confines g (read_file p)"
  by (auto simp: confines_def read_file_def confined_refl split: option.splits node.splits)

lemma confines_write_file: "confines g (write_file (g @ x # r) c)"
  by (auto simp: confines_def write_file_def confined_refl confined_put_below
           split: option.splits node.splits)

lemma confines_rename: "confines g (rename (g @ x # r) (g @ y # s))"
  unfolding confines_def
proof (intro allI impI)
  fix fs res fs'
  assume run: "rename (g @ x # r) (g @ y # s) fs = (res, fs')"
  show "confined g fs fs'"
  proof (cases "fs' = fs")
    case True
    then show ?thesis by (simp add: confined_refl)
  next
    case False
    with run obtain n fs1 where "remove fs (g @ x # r) = Some fs1"
      and "put fs1 (g @ y # s) n = Some fs'"
      by (auto simp: rename_def split: option.splits if_splits)
    then show ?thesis
      using confined_remove_below confined_put_below confined_trans by blast
  qed
qed

lemma confines_rmtree: "confines g (rmtree g)"
  by (auto simp: confines_def rmtree_def confined_refl confined_remove_root
           split: option.splits node.splits)

lemma confined_makedirs:
  assumes "makedirs fs g = Some fs'"
  shows "confined g fs fs'"
  unfolding confined_def
  using makedirs_parallel [OF assms] makedirs_same [OF assms] by (simp add: dir_or_absent_def)

lemma confines_copytree: "confines g (copytree env src g)"
  unfolding confines_def
proof (intro allI impI)
  fix fs res fs'
  assume run: "copytree env src g fs = (res, fs')"
  have inner: "confines g (\<lambda>fs. case makedirs fs g of None \<Rightarrow> (None, fs)
                 | Some fs1 \<Rightarrow> (case put fs1 g (Dir es) of None \<Rightarrow> (None, fs1)
                               | Some fs2 \<Rightarrow> (Some (), fs2)))" for es
    unfolding confines_def
    by (auto split: option.splits
             intro: confined_refl confined_makedirs confined_trans [OF confined_makedirs confined_put_root])
  show "confined g fs fs'"
  proof (cases "fs' = fs")
    case True
    then show ?thesis by (simp add: confined_refl)
  next
    case False
    with run obtain es where
      "inject env g OpCopy (\<lambda>fs. case makedirs fs g of None \<Rightarrow> (None, fs)
                 | Some fs1 \<Rightarrow> (case put fs1 g (Dir es) of None \<Rightarrow> (None, fs1)
                               | Some fs2 \<Rightarrow> (Some (), fs2))) fs = (res, fs')"
      by (auto simp: copytree_def split: option.splits node.splits if_splits)
    with confines_inject [OF inner] show ?thesis by (auto dest: confinesD)
  qed
qed

lemma confines_pure: "confines g (\<lambda>fs. (f fs, fs))"
  by (simp add: confines_def confined_refl)

lemma confines_return_io: "confines g (return_io a)"
  by (simp add: confines_def return_io_def confined_refl)

lemma confines_if: "confines g a \<Longrightarrow> confines g b \<Longrightarrow> confines g (if e then a else b)"
  by simp

lemma confines_inject_clean:
  assumes "confines g m"
  shows "confines g (inject_clean env op m)"
  unfolding confines_def
proof (intro allI impI)
  fix fs r fs'
  assume "inject_clean env op m fs = (r, fs')"
  then show "confined g fs fs'"
    using assms
    by (cases "env op") (auto simp: inject_clean_def confined_refl dest: confinesD)
qed

lemma confines_print_line: "confines g (print_line env n)"
  unfolding print_line_def by (intro confines_inject_clean confines_return_io)

lemma confines_print_lines: "confines g (print_lines env ns)"
  by (induction ns) (auto intro: confines_return_io confines_and_then confines_print_line)

lemma confines_exists_io: "confines g (exists_io env op p)"
  unfolding exists_io_def by (intro confines_inject_clean confines_pure)

lemma confines_rglob_io: "confines g (rglob_io env g p)"
  unfolding rglob_io_def by (intro confines_inject confines_pure)

lemma confines_update_build_gradle: "confines g (update_build_gradle env g game_id)"
  unfolding update_build_gradle_def Let_def
  by (intro confines_and_then confines_if confines_exists_io confines_inject confines_read_file
        confines_write_file confines_print_line confines_return_io)

lemma confines_update_package_structure:
  "confines g (update_package_structure env g game_id)"
  unfolding update_package_structure_def Let_def package_dir_def
  by (intro confines_and_then confines_if confines_exists_io confines_inject confines_rename
        confines_print_line confines_return_io)

lemma confined_rewrite_kotlin_files:
  "rewrite_kotlin_files env g game_id (g @ package_dir game_id) ps fs = (r, fs') \<Longrightarrow>
   confined g fs fs'"
proof (induction ps arbitrary: fs)
  case Nil
  then show ?case by (simp add: confined_refl)
next
  case (Cons p ps)
  have rd: "confines g (inject env g (OpReadKt p) (read_file ((g @ package_dir game_id) @ p)))"
    by (intro confines_inject confines_read_file)
  have wr: "confines g (inject env g (OpWriteKt p)
              (write_file ((g @ package_dir game_id) @ p) c))" for c
    unfolding package_dir_def by (simp add: confines_inject confines_write_file)
  obtain r1 fs1 where 1: "inject env g (OpReadKt p)
      (read_file ((g @ package_dir game_id) @ p)) fs = (r1, fs1)"
    by (cases "inject env g (OpReadKt p) (read_file ((g @ package_dir game_id) @ p)) fs")
  have c1: "confined g fs fs1" using rd 1 by (rule confinesD)
  show ?case
  proof (cases r1)
    case None
    with Cons.prems 1 c1 show ?thesis by simp
  next
    case (Some content)
    obtain r2 fs2 where 2: "inject env g (OpWriteKt p)
        (write_file ((g @ package_dir game_id) @ p) (rewrite_kotlin game_id content)) fs1 = (r2, fs2)"
      by (cases "inject env g (OpWriteKt p)
        (write_file ((g @ package_dir game_id) @ p) (rewrite_kotlin game_id content)) fs1")
    have c2: "confined g fs1 fs2" using wr 2 by (rule confinesD)
    show ?thesis
    proof (cases r2)
      case None
      with Cons.prems 1 2 Some c1 c2 show ?thesis by (auto intro: confined_trans)
    next
      case (Some u)
      with Cons.prems 1 2 \<open>r1 = Some content\<close>
      have "rewrite_kotlin_files env g game_id (g @ package_dir game_id) ps fs2 = (r, fs')"
        by simp
      from Cons.IH [OF this] c1 c2 show ?thesis by (blast intro: confined_trans)
    qed
  qed
qed

lemma confines_rewrite_kotlin_files:
  "confines g (rewrite_kotlin_files env g game_id (g @ package_dir game_id) ps)"
  unfolding confines_def using confined_rewrite_kotlin_files by blast

lemma confines_update_kotlin_files: "confines g (update_kotlin_files env g game_id)"
  unfolding update_kotlin_files_def Let_def
  by (intro confines_and_then confines_rglob_io confines_rewrite_kotlin_files
        confines_print_line)

lemma confines_create_game_config:
  "confines g (create_game_config env g game_id game_name category)"
proof -
  have "confines g (inject env g OpWriteConfig
     (write_file (g @ package_dir game_id @ [''GameConfig.kt''])
        (config_content game_id game_name category)))"
    unfolding package_dir_def by (simp add: confines_inject confines_write_file)
  then show ?thesis
    unfolding create_game_config_def Let_def
    by (intro confines_and_then confines_print_lines)
qed

lemma confines_try_body:
  "confines g (try_body env template_path g game_id game_name category)"
  unfolding try_body_def
  by (intro confines_and_then confines_copytree confines_print_line
        confines_update_build_gradle confines_update_package_structure
        confines_update_kotlin_files confines_create_game_config)

lemma confines_rollback: "confines g (rollback env g)"
  unfolding rollback_def
  by (intro confines_and_then confines_if confines_print_line confines_exists_io
        confines_inject confines_rmtree confines_return_io)

lemma confines_try_except:
  "confines g (try_except env template_path g game_id game_name category)"
  unfolding confines_def
proof (intro allI impI)
  fix fs r fs'
  assume run: "try_except env template_path g game_id game_name category fs = (r, fs')"
  obtain r1 fs1 where b: "try_body env template_path g game_id game_name category fs = (r1, fs1)"
    by (cases "try_body env template_path g game_id game_name category fs")
  have c1: "confined g fs fs1" using confines_try_body b by (rule confinesD)
  show "confined g fs fs'"
  proof (cases r1)
    case (Some u)
    with run b have "fs' = fs1" by (simp add: try_except_def)
    with c1 show ?thesis by simp
  next
    case None
    with run b have "rollback env g fs1 = (r, fs')" by (simp add: try_except_def)
    with confines_rollback have "confined g fs1 fs'" by (rule confinesD)
    with c1 show ?thesis by (rule confined_trans)
  qed
qed

lemma confines_setup_io:
  "confines (base_path @ [game_id]) (setup_io env game_id game_name category base_path)"
  unfolding setup_io_def Let_def
  by (intro confines_and_then confines_if confines_print_lines confines_print_line
        confines_exists_io confines_return_io confines_try_except)

lemma setup_game_module_snd:
  "snd (setup_game_module env fs game_id game_name category base_path)
     = snd (setup_io env game_id game_name category base_path fs)"
  by (simp add: setup_game_module_def split: prod.splits option.splits)

lemma confined_setup_game_module:
  assumes "setup_game_module env fs game_id game_name category base_path = (r, fs')"
  shows "confined (base_path @ [game_id]) fs fs'"
proof -
  from assms have "snd (setup_io env game_id game_name category base_path fs) = fs'"
    using setup_game_module_snd [of env fs game_id game_name category base_path] by simp
  then have "setup_io env game_id game_name category base_path fs
      = (fst (setup_io env game_id game_name category base_path fs), fs')"
    by (metis prod.collapse)
  with confines_setup_io show ?thesis by (rule confinesD)
qed

subsection \<open>A run that returns True met no failure\<close>

lemma succeeds_alikeD: "succeeds_alike m m0 \<Longrightarrow> m fs = (Some a, fs') \<Longrightarrow> m0 fs = (Some a, fs')"
  by (simp add: succeeds_alike_def)

lemma and_then_SomeE:
  assumes "and_then m f fs = (Some b, fs')"
  obtains a fs1 where "m fs = (Some a, fs1)" and "f a fs1 = (Some b, fs')"
  using assms by (cases "m fs") (auto simp: and_then_def split: option.splits)

lemma succeeds_alike_and_then:
  assumes "succeeds_alike m m0" and "\<And>a. succeeds_alike (f a) (f0 a)"
  shows "succeeds_alike (and_then m f) (and_then m0 f0)"
  unfolding succeeds_alike_def
proof (intro allI impI)
  fix fs b fs'
  assume "and_then m f fs = (Some b, fs')"
  then obtain a fs1 where 1: "m fs = (Some a, fs1)" and 2: "f a fs1 = (Some b, fs')"
    by (rule and_then_SomeE)
  from assms(1) 1 have "m0 fs = (Some a, fs1)" by (rule succeeds_alikeD)
  moreover from assms(2) 2 have "f0 a fs1 = (Some b, fs')" by (rule succeeds_alikeD)
  ultimately show "and_then m0 f0 fs = (Some b, fs')" by (simp add: and_then_def)
qed

lemma inject_SomeD:
  "inject env g op m fs = (Some a, fs') \<Longrightarrow> env op = NoFault \<and> m fs = (Some a, fs')"
  by (cases "env op") (auto simp: inject_def)

lemma inject_no_faults: "inject no_faults g op m = m"
  by (simp add: inject_def no_faults_def fun_eq_iff)

lemma inject_clean_SomeD:
  "inject_clean env op m fs = (Some a, fs') \<Longrightarrow> env op = NoFault \<and> m fs = (Some a, fs')"
  by (cases "env op") (auto simp: inject_clean_def)

lemma inject_clean_no_faults: "inject_clean no_faults op m = m"
  by (simp add: inject_clean_def no_faults_def fun_eq_iff)

lemma succeeds_alike_refl: "succeeds_alike m m"
  by (simp add: succeeds_alike_def)

lemma succeeds_alike_if:
  "succeeds_alike a a0 \<Longrightarrow> succeeds_alike b b0 \<Longrightarrow>
   succeeds_alike (if e then a else b) (if e then a0 else b0)"
  by simp

lemma succeeds_alike_inject: "succeeds_alike (inject env g op m) (inject no_faults g op m)"
  by (auto simp: succeeds_alike_def inject_no_faults dest: inject_SomeD)

lemma succeeds_alike_inject_clean:
  "succeeds_alike (inject_clean env op m) (inject_clean no_faults op m)"
  by (auto simp: succeeds_alike_def inject_clean_no_faults dest: inject_clean_SomeD)

lemma succeeds_alike_print_line: "succeeds_alike (print_line env n) (print_line no_faults n)"
  unfolding print_line_def by (rule succeeds_alike_inject_clean)

lemma succeeds_alike_print_lines: "succeeds_alike (print_lines env ns) (print_lines no_faults ns)"
  by (induction ns)
     (auto intro: succeeds_alike_refl succeeds_alike_and_then succeeds_alike_print_line)

lemma succeeds_alike_exists_io: "succeeds_alike (exists_io env op p) (exists_io no_faults op p)"
  unfolding exists_io_def by (rule succeeds_alike_inject_clean)

lemma succeeds_alike_rglob_io: "succeeds_alike (rglob_io env g p) (rglob_io no_faults g p)"
  unfolding rglob_io_def by (rule succeeds_alike_inject)

lemma succeeds_alike_copytree: "succeeds_alike (copytree env src dst) (copytree no_faults src dst)"
  unfolding succeeds_alike_def copytree_def
  by (auto split: option.splits node.splits if_splits simp: inject_no_faults dest!: inject_SomeD)

lemma succeeds_alike_update_build_gradle:
  "succeeds_alike (update_build_gradle env g game_id) (update_build_gradle no_faults g game_id)"
  unfolding update_build_gradle_def Let_def
  by (intro succeeds_alike_and_then succeeds_alike_if succeeds_alike_exists_io
        succeeds_alike_inject succeeds_alike_print_line succeeds_alike_refl)

lemma succeeds_alike_update_package_structure:
  "succeeds_alike (update_package_structure env g game_id)
     (update_package_structure no_faults g game_id)"
  unfolding update_package_structure_def Let_def
  by (intro succeeds_alike_and_then succeeds_alike_if succeeds_alike_exists_io
        succeeds_alike_inject succeeds_alike_print_line succeeds_alike_refl)

lemma rewrite_kotlin_files_no_faults:
  "rewrite_kotlin_files env g game_id d ps fs = (Some u, fs') \<Longrightarrow>
   rewrite_kotlin_files no_faults g game_id d ps fs = (Some u, fs')"
proof (induction ps arbitrary: fs)
  case Nil
  then show ?case by simp
next
  case (Cons p ps)
  from Cons.prems obtain content fs1 u2 fs2 where
    1: "inject env g (OpReadKt p) (read_file (d @ p)) fs = (Some content, fs1)" and
    2: "inject env g (OpWriteKt p) (write_file (d @ p) (rewrite_kotlin game_id content)) fs1
          = (Some u2, fs2)" and
    3: "rewrite_kotlin_files env g game_id d ps fs2 = (Some u, fs')"
    by (auto split: prod.splits option.splits)
  from 1 have "inject no_faults g (OpReadKt p) (read_file (d @ p)) fs = (Some content, fs1)"
    by (auto simp: inject_no_faults dest: inject_SomeD)
  moreover from 2 have "inject no_faults g (OpWriteKt p)
      (write_file (d @ p) (rewrite_kotlin game_id content)) fs1 = (Some u2, fs2)"
    by (auto simp: inject_no_faults dest: inject_SomeD)
  ultimately show ?case using Cons.IH [OF 3] by simp
qed

lemma succeeds_alike_rewrite_kotlin_files:
  "succeeds_alike (rewrite_kotlin_files env g game_id d ps)
     (rewrite_kotlin_files no_faults g game_id d ps)"
  unfolding succeeds_alike_def using rewrite_kotlin_files_no_faults by blast

lemma succeeds_alike_update_kotlin_files:
  "succeeds_alike (update_kotlin_files env g game_id) (update_kotlin_files no_faults g game_id)"
  unfolding update_kotlin_files_def Let_def
  by (intro succeeds_alike_and_then succeeds_alike_rglob_io
        succeeds_alike_rewrite_kotlin_files succeeds_alike_print_line)

lemma succeeds_alike_create_game_config:
  "succeeds_alike (create_game_config env g game_id game_name category)
     (create_game_config no_faults g game_id game_name category)"
  unfolding create_game_config_def Let_def
  by (intro succeeds_alike_and_then succeeds_alike_inject succeeds_alike_print_lines)

lemma succeeds_alike_try_body:
  "succeeds_alike (try_body env t g game_id game_name category)
     (try_body no_faults t g game_id game_name category)"
  unfolding try_body_def
  by (intro succeeds_alike_and_then succeeds_alike_copytree succeeds_alike_print_line
        succeeds_alike_update_build_gradle succeeds_alike_update_package_structure
        succeeds_alike_update_kotlin_files succeeds_alike_create_game_config)

subsection \<open>The statements that write nothing\<close>

lemma print_line_eq:
  "print_line env n fs = (if env (OpPrint n) = NoFault then (Some (), fs) else (None, fs))"
  by (cases "env (OpPrint n)") (simp_all add: print_line_def inject_clean_def return_io_def)

lemma print_lines_eq:
  "print_lines env ns fs =
     (if list_all (\<lambda>n. env (OpPrint n) = NoFault) ns then (Some (), fs) else (None, fs))"
  by (induction ns) (simp_all add: return_io_def and_then_def print_line_eq)

lemma exists_io_eq:
  "exists_io env op p fs = (if env op = NoFault then (Some (path_exists fs p), fs) else (None, fs))"
  by (cases "env op") (simp_all add: exists_io_def inject_clean_def)

lemma print_line_SomeD: "print_line env n fs = (Some u, fs') \<Longrightarrow> fs' = fs"
  by (simp add: print_line_eq split: if_splits)

lemma print_lines_SomeD: "print_lines env ns fs = (Some u, fs') \<Longrightarrow> fs' = fs"
  by (simp add: print_lines_eq split: if_splits)

lemma exists_io_SomeD:
  "exists_io env op p fs = (Some e, fs') \<Longrightarrow> fs' = fs \<and> e = path_exists fs p"
  by (auto simp: exists_io_eq split: if_splits)

subsection \<open>The outcome of \<^verbatim>\<open>setup_game_module\<close>\<close>

lemma rollback_eq:
  "rollback env g fs =
     (if env (OpPrint 129) \<noteq> NoFault \<or> env OpExistsRollback \<noteq> NoFault then (None, fs)
      else if path_exists fs g then
        (case inject env g OpRmtree (rmtree g) fs of
           (Some u, fs') \<Rightarrow> (Some False, fs')
         | (None, fs') \<Rightarrow> (None, fs'))
      else (Some False, fs))"
  by (simp add: rollback_def and_then_def print_line_eq exists_io_eq return_io_def
           split: prod.splits option.splits)

lemma rollback_False: "rollback env g fs = (Some b, fs') \<Longrightarrow> b = False"
  by (auto simp: rollback_eq split: if_splits prod.splits option.splits)

lemma setup_io_eq:
  "setup_io env game_id game_name category base_path fs =
     (if \<not> (env (OpPrint 27) = NoFault \<and> env (OpPrint 28) = NoFault \<and> env (OpPrint 29) = NoFault)
         \<or> env OpExistsTarget \<noteq> NoFault then (None, fs)
      else if path_exists fs (base_path @ [game_id]) then
        (if env (OpPrint 38) = NoFault then (Some False, fs) else (None, fs))
      else try_except env (base_path @ [''template'']) (base_path @ [game_id])
             game_id game_name category fs)"
  by (simp add: setup_io_def Let_def and_then_def print_lines_eq print_line_eq exists_io_eq
        return_io_def)

lemma write_file_SomeD:
  "write_file p c fs = (Some u, fs') \<Longrightarrow> put fs p (File c) = Some fs'"
  by (auto simp: write_file_def split: option.splits node.splits)

lemma create_game_config_SomeD:
  assumes "create_game_config env g game_id game_name category fs = (Some u, fs')"
  shows "write_file (g @ package_dir game_id @ [''GameConfig.kt''])
           (config_content game_id game_name category) fs = (Some (), fs')"
proof -
  from assms obtain u1 fs1 where
    w: "inject env g OpWriteConfig (write_file (g @ package_dir game_id @ [''GameConfig.kt''])
          (config_content game_id game_name category)) fs = (Some u1, fs1)" and
    p: "print_lines env [116, 118, 119, 120, 121, 122, 123, 124] fs1 = (Some u, fs')"
    unfolding create_game_config_def Let_def by (elim and_then_SomeE)
  from p have "fs' = fs1" by (rule print_lines_SomeD)
  with w show ?thesis by (auto dest: inject_SomeD)
qed

lemma try_body_config_written:
  assumes "try_body env t g game_id game_name category fs = (Some u, fs')"
  shows "lookup fs' (g @ package_dir game_id @ [''GameConfig.kt'']) =
           Some (File (config_content game_id game_name category))"
proof -
  from assms obtain fs4 where
    "create_game_config env g game_id game_name category fs4 = (Some u, fs')"
    unfolding try_body_def by (elim and_then_SomeE) auto
  then have "put fs4 (g @ package_dir game_id @ [''GameConfig.kt''])
               (File (config_content game_id game_name category)) = Some fs'"
    by (auto dest!: create_game_config_SomeD write_file_SomeD)
  then show ?thesis by (rule put_same)
qed

lemma try_body_target_exists:
  assumes "try_body env t g game_id game_name category fs = (Some u, fs')"
  shows "path_exists fs' g"
  using try_body_config_written [OF assms] lookup_prefix_exists
  by (fastforce simp: path_exists_def)

lemma try_except_TrueD:
  assumes "try_except env t g game_id game_name category fs = (Some True, fs')"
  shows "try_body env t g game_id game_name category fs = (Some (), fs')"
  using assms
  by (auto simp: try_except_def split: prod.splits option.splits dest: rollback_False)

lemma setup_game_module_eq:
  "setup_game_module env fs game_id game_name category base_path = (Returned b, fs') \<longleftrightarrow>
   setup_io env game_id game_name category base_path fs = (Some b, fs')"
  by (auto simp: setup_game_module_def split: prod.splits option.splits)

lemma setup_game_module_TrueD:
  assumes "setup_game_module env fs game_id game_name category base_path = (Returned True, fs')"
  shows "\<not> path_exists fs (base_path @ [game_id]) \<and>
         try_body env (base_path @ [''template'']) (base_path @ [game_id])
           game_id game_name category fs = (Some (), fs')"
proof -
  from assms have "setup_io env game_id game_name category base_path fs = (Some True, fs')"
    by (simp add: setup_game_module_eq)
  then have "\<not> path_exists fs (base_path @ [game_id]) \<and>
      try_except env (base_path @ [''template'']) (base_path @ [game_id])
        game_id game_name category fs = (Some True, fs')"
    by (auto simp: setup_io_eq split: if_splits)
  then show ?thesis by (auto dest: try_except_TrueD)
qed

lemma setup_game_module_TrueI:
  assumes "try_body no_faults (base_path @ [''template'']) (base_path @ [game_id])
           game_id game_name category fs = (Some (), fs')"
    and "\<not> path_exists fs (base_path @ [game_id])"
  shows "setup_game_module no_faults fs game_id game_name category base_path
           = (Returned True, fs')"
  using assms
  by (simp add: setup_game_module_eq setup_io_eq try_except_def) (simp add: no_faults_def)

lemma setup_game_module_exists:
  assumes "path_exists fs (base_path @ [game_id])"
  shows "snd (setup_game_module env fs game_id game_name category base_path) = fs"
    and "fst (setup_game_module env fs game_id game_name category base_path) \<noteq> Returned True"
    and "preamble_quiet env \<Longrightarrow>
         setup_game_module env fs game_id game_name category base_path = (Returned False, fs)"
  using assms by (auto simp: setup_game_module_def setup_io_eq preamble_quiet_def)

lemma copytree_no_source:
  "\<not> is_dir fs src \<Longrightarrow> copytree env src dst fs = (None, fs)"
  by (auto simp: copytree_def is_dir_def split: option.splits node.splits)

lemma try_body_no_template:
  "\<not> is_dir fs t \<Longrightarrow> try_body env t g game_id game_name category fs = (None, fs)"
  by (simp add: try_body_def and_then_def copytree_no_source)

lemma setup_game_module_no_template:
  assumes "\<not> is_dir fs (base_path @ [''template''])"
  shows "snd (setup_game_module env fs game_id game_name category base_path) = fs"
    and "fst (setup_game_module env fs game_id game_name category base_path) \<noteq> Returned True"
    and "preamble_quiet env \<Longrightarrow> handler_quiet env \<Longrightarrow>
         setup_game_module env fs game_id game_name category base_path = (Returned False, fs)"
  using assms
  by (auto simp: setup_game_module_def setup_io_eq try_except_def try_body_no_template
        rollback_eq preamble_quiet_def handler_quiet_def)




text \<open>The run on the example returns True.\<close>

lemma example_run:
  "setup_game_module no_faults example_fs ''puzzle-007'' ''Amazing Puzzle'' ''puzzle'' [''game'']
     = (Returned True, example_result)"
proof -
  have "fst (setup_game_module no_faults example_fs ''puzzle-007'' ''Amazing Puzzle'' ''puzzle''
          [''game'']) = Returned True"
    by code_simp
  then show ?thesis
    unfolding example_result_def by (metis prod.collapse)
qed

lemma safe_token_example: "safe_token ''puzzle-007''"
  by (simp add: safe_token_def)




text \<open>
  Claim C7. Whatever the call does (return True, return False, or let an exception
  escape) and whatever failures are injected, the template directory is the same tree
  after the call as before, and so is the node at every path that neither lies under the
  target directory nor is one of its ancestors: all writes are inside the target
  directory.
\<close>

theorem template_non_interference:
  assumes "safe_token game_id"
  shows "lookup (snd (setup_game_module env fs game_id game_name category base_path))
           (base_path @ [''template'']) = lookup fs (base_path @ [''template'']) \<and>
         (\<forall>q. (base_path @ [game_id]) \<parallel> q \<longrightarrow>
            lookup (snd (setup_game_module env fs game_id game_name category base_path)) q
              = lookup fs q)"
proof -
  let ?run = "setup_game_module env fs game_id game_name category base_path"
  have "?run = (fst ?run, snd ?run)" by simp
  then have c: "confined (base_path @ [game_id]) fs (snd ?run)"
    by (rule confined_setup_game_module)
  then have frame: "\<forall>q. (base_path @ [game_id]) \<parallel> q \<longrightarrow> lookup (snd ?run) q = lookup fs q"
    by (simp add: confined_def)
  have "lookup (snd ?run) (base_path @ [''template'']) = lookup fs (base_path @ [''template''])"
  proof (cases "game_id = ''template''")
    case False
    then have "(base_path @ [game_id]) \<parallel> (base_path @ [''template''])"
      by (auto simp: parallel_def)
    with frame show ?thesis by blast
  next
    case True
    show ?thesis
    proof (cases "is_dir fs (base_path @ [''template''])")
      case True
      with \<open>game_id = ''template''\<close> have "path_exists fs (base_path @ [game_id])"
        by (auto simp: is_dir_def path_exists_def split: option.splits)
      then show ?thesis by (simp add: setup_game_module_exists(1))
    next
      case False
      then show ?thesis by (simp add: setup_game_module_no_template(1))
    qed
  qed
  with frame show ?thesis by simp
qed

theorem template_non_interference_witness:
  "safe_token ''puzzle-007'' \<and>
   fst (setup_game_module no_faults example_fs ''puzzle-007'' ''Amazing Puzzle'' ''puzzle''
          [''game'']) = Returned True \<and>
   lookup example_result [''game'', ''template''] = Some example_template \<and>
   lookup example_fs [''game'', ''template''] = Some example_template"
proof -
  have l: "lookup example_fs [''game'', ''template''] = Some example_template"
    by (simp add: example_fs_def)
  from template_non_interference [OF safe_token_example, of no_faults example_fs
      "''Amazing Puzzle''" "''puzzle''" "[''game'']"]
  have "lookup example_result [''game'', ''template''] = lookup example_fs [''game'', ''template'']"
    by (simp add: example_result_def)
  with l example_run safe_token_example show ?thesis by simp
qed

subsection \<open>Rollback\<close>

lemma dir_or_absent_exists:
  "dir_or_absent fs p \<Longrightarrow> path_exists fs p \<Longrightarrow> \<exists>es. lookup fs p = Some (Dir es)"
  by (auto simp: dir_or_absent_def path_exists_def split: option.splits node.splits)

lemma rmtree_succeeds:
  assumes "lookup fs p = Some (Dir es)" and "p \<noteq> []"
  shows "\<exists>fs'. rmtree p fs = (Some (), fs') \<and> \<not> path_exists fs' p"
proof -
  from remove_succeeds [OF assms] obtain fs' where r: "remove fs p = Some fs'" by blast
  with assms(1) have "rmtree p fs = (Some (), fs')" by (simp add: rmtree_def)
  moreover from r have "\<not> path_exists fs' p" by (simp add: path_exists_def remove_same)
  ultimately show ?thesis by blast
qed

lemma rollback_quiet:
  assumes "handler_quiet env" and "env OpRmtree = NoFault" and "dir_or_absent fs g" and "g \<noteq> []"
  shows "\<exists>fs'. rollback env g fs = (Some False, fs') \<and> \<not> path_exists fs' g"
proof (cases "path_exists fs g")
  case False
  with assms(1) show ?thesis by (simp add: rollback_eq handler_quiet_def)
next
  case True
  with assms(3) obtain es where "lookup fs g = Some (Dir es)"
    using dir_or_absent_exists by blast
  then obtain fs' where "rmtree g fs = (Some (), fs')" and "\<not> path_exists fs' g"
    using rmtree_succeeds assms(4) by blast
  with assms(1,2) True show ?thesis
    by (simp add: rollback_eq handler_quiet_def inject_def)
qed

lemma try_except_quiet:
  assumes "handler_quiet env" and "env OpRmtree = NoFault" and "\<not> path_exists fs g"
    and "g \<noteq> []"
  shows "(\<exists>fs'. try_except env t g game_id game_name category fs = (Some True, fs') \<and>
            try_body env t g game_id game_name category fs = (Some (), fs')) \<or>
         (\<exists>fs'. try_except env t g game_id game_name category fs = (Some False, fs') \<and>
            \<not> path_exists fs' g)"
proof -
  obtain r1 fs1 where b: "try_body env t g game_id game_name category fs = (r1, fs1)"
    by (cases "try_body env t g game_id game_name category fs")
  show ?thesis
  proof (cases r1)
    case (Some u)
    with b show ?thesis by (simp add: try_except_def)
  next
    case None
    have "confined g fs fs1" using confines_try_body b by (rule confinesD)
    moreover from assms(3) have "dir_or_absent fs g"
      by (simp add: dir_or_absent_def path_exists_def)
    ultimately have "dir_or_absent fs1 g" by (simp add: confined_def)
    from rollback_quiet [OF assms(1,2) this assms(4)] b None show ?thesis
      by (simp add: try_except_def)
  qed
qed

text \<open>
  Claim C1, as amended. Let the id be a safe token, the target directory absent before the
  call, and let the handler not raise (its message, its \<^verbatim>\<open>exists()\<close> test, its
  \<^verbatim>\<open>shutil.rmtree\<close>). Then whatever fails in the steps 1 to 5, after the call the file
  system is in one of two states. Either the call returned True, the target directory
  exists and the file system is the one that the run without any failure produces: the
  fully instantiated module. Or the call did not return True and the target directory
  does not exist; in this case the call returned False, unless a statement before the
  \<^verbatim>\<open>try\<close> block raised.
\<close>

theorem failure_atomicity:
  assumes "safe_token game_id" and "\<not> path_exists fs (base_path @ [game_id])"
    and "handler_quiet env" and "env OpRmtree = NoFault"
  shows "(fst (setup_game_module env fs game_id game_name category base_path) = Returned True \<and>
          path_exists (snd (setup_game_module env fs game_id game_name category base_path))
            (base_path @ [game_id]) \<and>
          setup_game_module no_faults fs game_id game_name category base_path
            = (Returned True, snd (setup_game_module env fs game_id game_name category base_path))) \<or>
         (fst (setup_game_module env fs game_id game_name category base_path) \<noteq> Returned True \<and>
          \<not> path_exists (snd (setup_game_module env fs game_id game_name category base_path))
            (base_path @ [game_id]) \<and>
          (preamble_quiet env \<longrightarrow>
             fst (setup_game_module env fs game_id game_name category base_path) = Returned False))"
proof -
  let ?g = "base_path @ [game_id]" and ?t = "base_path @ [''template'']"
  let ?R = "setup_game_module env fs game_id game_name category base_path"
  show ?thesis
  proof (cases "env (OpPrint 27) = NoFault \<and> env (OpPrint 28) = NoFault \<and>
      env (OpPrint 29) = NoFault \<and> env OpExistsTarget = NoFault")
    case False
    then have "?R = (Raised, fs)"
      by (auto simp: setup_game_module_def setup_io_eq)
    moreover from False have "\<not> preamble_quiet env" by (auto simp: preamble_quiet_def)
    ultimately show ?thesis using assms(2) by simp
  next
    case True
    with assms(2) have io: "setup_io env game_id game_name category base_path fs
        = try_except env ?t ?g game_id game_name category fs"
      by (simp add: setup_io_eq)
    have "?g \<noteq> []" by simp
    from try_except_quiet [OF assms(3,4,2) this, of ?t game_id game_name category]
    show ?thesis
    proof (elim disjE exE conjE)
      fix fs'
      assume t: "try_except env ?t ?g game_id game_name category fs = (Some True, fs')"
        and b: "try_body env ?t ?g game_id game_name category fs = (Some (), fs')"
      from t io have r: "?R = (Returned True, fs')" by (simp add: setup_game_module_def)
      from b have "path_exists fs' ?g" by (rule try_body_target_exists)
      moreover from succeeds_alike_try_body b
      have "try_body no_faults ?t ?g game_id game_name category fs = (Some (), fs')"
        by (rule succeeds_alikeD)
      then have "setup_game_module no_faults fs game_id game_name category base_path
          = (Returned True, fs')"
        using assms(2) by (rule setup_game_module_TrueI)
      ultimately show ?thesis using r by simp
    next
      fix fs'
      assume t: "try_except env ?t ?g game_id game_name category fs = (Some False, fs')"
        and a: "\<not> path_exists fs' ?g"
      from t io have "?R = (Returned False, fs')" by (simp add: setup_game_module_def)
      with a show ?thesis by simp
    qed
  qed
qed

text \<open>
  On the example: with a failing \<^verbatim>\<open>os.rename\<close> the call returns False and the file system
  is as before.
\<close>

theorem failure_atomicity_witness:
  "safe_token ''puzzle-007'' \<and> \<not> path_exists example_fs [''game'', ''puzzle-007''] \<and>
   handler_quiet rename_fails \<and> rename_fails OpRmtree = NoFault \<and> preamble_quiet rename_fails \<and>
   setup_game_module rename_fails example_fs ''puzzle-007'' ''Amazing Puzzle'' ''puzzle'' [''game'']
     = (Returned False, example_fs) \<and>
   \<not> path_exists (snd (setup_game_module rename_fails example_fs ''puzzle-007''
        ''Amazing Puzzle'' ''puzzle'' [''game''])) [''game'', ''puzzle-007'']"
proof -
  have a: "\<not> path_exists example_fs ([''game''] @ [''puzzle-007''])"
    by code_simp
  have h: "handler_quiet rename_fails" "rename_fails OpRmtree = NoFault"
    "preamble_quiet rename_fails"
    by (simp_all add: handler_quiet_def preamble_quiet_def rename_fails_def)
  have b: "setup_game_module rename_fails example_fs ''puzzle-007'' ''Amazing Puzzle'' ''puzzle''
      [''game''] = (Returned False, example_fs)"
    by code_simp
  from failure_atomicity [OF safe_token_example a h(1,2), of "''Amazing Puzzle''" "''puzzle''"] b
  have "\<not> path_exists (snd (setup_game_module rename_fails example_fs ''puzzle-007''
        ''Amazing Puzzle'' ''puzzle'' [''game''])) ([''game''] @ [''puzzle-007''])"
    by simp
  with a b h safe_token_example show ?thesis by simp
qed

text \<open>
  When the handler itself raises, the claim fails: with \<^verbatim>\<open>os.rename\<close> raising in step 3
  and \<^verbatim>\<open>shutil.rmtree\<close> raising in the handler, the target directory, absent before,
  stays as a half-built module, with the package directory still named \<^verbatim>\<open>template\<close>
  and no \<^verbatim>\<open>GameConfig.kt\<close>.
\<close>

theorem rollback_failure_leaves_partial_counterexample:
  "\<not> path_exists example_fs [''game'', ''puzzle-007''] \<and>
   fst (setup_game_module rename_and_rmtree_fail example_fs ''puzzle-007'' ''Amazing Puzzle''
          ''puzzle'' [''game'']) = Raised \<and>
   path_exists (snd (setup_game_module rename_and_rmtree_fail example_fs ''puzzle-007''
          ''Amazing Puzzle'' ''puzzle'' [''game''])) [''game'', ''puzzle-007''] \<and>
   path_exists (snd (setup_game_module rename_and_rmtree_fail example_fs ''puzzle-007''
          ''Amazing Puzzle'' ''puzzle'' [''game'']))
     ([''game'', ''puzzle-007''] @ package_dir ''template'') \<and>
   \<not> path_exists (snd (setup_game_module rename_and_rmtree_fail example_fs ''puzzle-007''
          ''Amazing Puzzle'' ''puzzle'' [''game'']))
     ([''game'', ''puzzle-007''] @ package_dir ''puzzle-007'' @ [''GameConfig.kt''])"
  by code_simp

subsection \<open>Exceptions that escape\<close>

text \<open>
  Claim C8, as amended. For a safe id, when no statement outside the \<^verbatim>\<open>try\<close> block raises
  (the messages and the \<^verbatim>\<open>exists()\<close> test before it; the handler's message, its
  \<^verbatim>\<open>exists()\<close> test and its \<^verbatim>\<open>shutil.rmtree\<close>), the call returns a boolean for every
  file system and every failure of a statement inside the \<^verbatim>\<open>try\<close> block: no exception
  escapes.
\<close>

theorem returns_unless_rollback_fails:
  assumes "safe_token game_id" and "preamble_quiet env" and "handler_quiet env"
    and "env OpRmtree = NoFault"
  shows "fst (setup_game_module env fs game_id game_name category base_path) \<noteq> Raised"
proof (cases "path_exists fs (base_path @ [game_id])")
  case True
  from setup_game_module_exists(3) [OF True assms(2)] show ?thesis by simp
next
  case False
  let ?g = "base_path @ [game_id]" and ?t = "base_path @ [''template'']"
  from assms(2) False have io: "setup_io env game_id game_name category base_path fs
      = try_except env ?t ?g game_id game_name category fs"
    by (simp add: setup_io_eq preamble_quiet_def)
  have "?g \<noteq> []" by simp
  from try_except_quiet [OF assms(3,4) False this, of ?t game_id game_name category] io
  show ?thesis by (auto simp: setup_game_module_def)
qed

theorem returns_unless_rollback_fails_witness:
  "safe_token ''puzzle-007'' \<and> preamble_quiet rename_fails \<and> handler_quiet rename_fails \<and>
   rename_fails OpRmtree = NoFault \<and>
   fst (setup_game_module rename_fails example_fs ''puzzle-007'' ''Amazing Puzzle'' ''puzzle''
          [''game'']) = Returned False"
proof -
  have h: "preamble_quiet rename_fails" "handler_quiet rename_fails"
    "rename_fails OpRmtree = NoFault"
    by (simp_all add: handler_quiet_def preamble_quiet_def rename_fails_def)
  have b: "fst (setup_game_module rename_fails example_fs ''puzzle-007'' ''Amazing Puzzle''
      ''puzzle'' [''game'']) = Returned False"
    by code_simp
  from returns_unless_rollback_fails [OF safe_token_example h, of example_fs "''Amazing Puzzle''"
      "''puzzle''" "[''game'']"] h b safe_token_example
  show ?thesis by simp
qed

text \<open>
  An exception raised outside the \<^verbatim>\<open>try\<close> block escapes. The \<^verbatim>\<open>exists()\<close> test of line
  37 stands before the \<^verbatim>\<open>try\<close>: when it raises, the call raises. And when the console
  cannot encode the messages, the message of line 44 raises inside the \<^verbatim>\<open>try\<close>, the
  handler's own message raises again, and the exception escapes before the rollback,
  leaving the copied directory.
\<close>

theorem exception_escapes_counterexample:
  "fst (setup_game_module exists_test_fails example_fs ''puzzle-007'' ''Amazing Puzzle''
          ''puzzle'' [''game'']) = Raised \<and>
   fst (setup_game_module console_cannot_encode example_fs ''puzzle-007'' ''Amazing Puzzle''
          ''puzzle'' [''game'']) = Raised \<and>
   path_exists (snd (setup_game_module console_cannot_encode example_fs ''puzzle-007''
          ''Amazing Puzzle'' ''puzzle'' [''game''])) [''game'', ''puzzle-007'']"
  by code_simp

text \<open>
  Claim C3 at a template that has the build descriptor but not the package directory:
  the rename is skipped, and then \<^verbatim>\<open>GameConfig.kt\<close> cannot be created in the directory
  that was never made, so the call rolls back and returns False. A template that lacks
  only the build descriptor is instantiated.
\<close>

theorem missing_package_directory_fails:
  "\<not> path_exists fs_without_sources ([''game'', ''template''] @ package_dir ''template'') \<and>
   setup_game_module no_faults fs_without_sources ''puzzle-007'' ''Amazing Puzzle'' ''puzzle''
     [''game''] = (Returned False, fs_without_sources) \<and>
   \<not> path_exists fs_without_build [''game'', ''template'', ''build.gradle.kts''] \<and>
   fst (setup_game_module no_faults fs_without_build ''puzzle-007'' ''Amazing Puzzle'' ''puzzle''
     [''game'']) = Returned True"
  by code_simp

text \<open>
  Claim C9. After a call that returned True, \<^verbatim>\<open>GameConfig.kt\<close> in the renamed package
  directory is a plain file whose content is the format string filled with the id, the
  display name and the category of the call, whatever the template held. It starts with
  the package declaration that ends in the id, and it contains the three values as
  string constants and the fixed constants \<^verbatim>\<open>VERSION = "1.0.0"\<close>, \<^verbatim>\<open>MIN_SDK = 24\<close> and
  \<^verbatim>\<open>TARGET_SDK = 34\<close>.
\<close>

subsection \<open>The generated configuration\<close>

lemma config_content_sublists:
  \<open>prefix (''package com.roshni.games.game.'' @ game_id @ ''\<newline>'')
     (config_content game_id game_name category)\<close>
  \<open>sublist (''const val GAME_ID = "'' @ game_id @ ''"'')
     (config_content game_id game_name category)\<close>
  \<open>sublist (''const val GAME_NAME = "'' @ game_name @ ''"'')
     (config_content game_id game_name category)\<close>
  \<open>sublist (''const val CATEGORY = "'' @ category @ ''"'')
     (config_content game_id game_name category)\<close>
  \<open>sublist ''const val VERSION = "1.0.0"'' (config_content game_id game_name category)\<close>
  \<open>sublist ''const val MIN_SDK = 24'' (config_content game_id game_name category)\<close>
  \<open>sublist ''const val TARGET_SDK = 34'' (config_content game_id game_name category)\<close>
proof -
  let ?c = "config_content game_id game_name category"
  let ?a = \<open>''package com.roshni.games.game.'' @ game_id @ ''\<newline>\<newline>// Game configuration for ''
              @ game_name @ ''\<newline>object GameConfig {\<newline>    ''\<close>
  let ?b = \<open>?a @ ''const val GAME_ID = "'' @ game_id @ ''"\<newline>    ''\<close>
  let ?d = \<open>?b @ ''const val GAME_NAME = "'' @ game_name @ ''"\<newline>    ''\<close>
  let ?e = \<open>?d @ ''const val CATEGORY = "'' @ category @ ''"\<newline>    ''\<close>
  show \<open>prefix (''package com.roshni.games.game.'' @ game_id @ ''\<newline>'') ?c\<close>
    by (simp add: config_content_def)
  have \<open>?c = ?a @ (''const val GAME_ID = "'' @ game_id @ ''"'') @
      (''\<newline>    const val GAME_NAME = "'' @ game_name @ ''"\<newline>    const val CATEGORY = "'' @ category
       @ ''"\<newline>    const val VERSION = "1.0.0"\<newline>    const val MIN_SDK = 24\<newline>    const val TARGET_SDK = 34\<newline>}\<newline>'')\<close>
    by (simp add: config_content_def)
  then show \<open>sublist (''const val GAME_ID = "'' @ game_id @ ''"'') ?c\<close>
    unfolding sublist_def by blast
  have \<open>?c = ?b @ (''const val GAME_NAME = "'' @ game_name @ ''"'') @
      (''\<newline>    const val CATEGORY = "'' @ category
       @ ''"\<newline>    const val VERSION = "1.0.0"\<newline>    const val MIN_SDK = 24\<newline>    const val TARGET_SDK = 34\<newline>}\<newline>'')\<close>
    by (simp add: config_content_def)
  then show \<open>sublist (''const val GAME_NAME = "'' @ game_name @ ''"'') ?c\<close>
    unfolding sublist_def by blast
  have \<open>?c = ?d @ (''const val CATEGORY = "'' @ category @ ''"'') @
      ''\<newline>    const val VERSION = "1.0.0"\<newline>    const val MIN_SDK = 24\<newline>    const val TARGET_SDK = 34\<newline>}\<newline>''\<close>
    by (simp add: config_content_def)
  then show \<open>sublist (''const val CATEGORY = "'' @ category @ ''"'') ?c\<close>
    unfolding sublist_def by blast
  have \<open>?c = ?e @ ''const val VERSION = "1.0.0"'' @
      ''\<newline>    const val MIN_SDK = 24\<newline>    const val TARGET_SDK = 34\<newline>}\<newline>''\<close>
    by (simp add: config_content_def)
  then show \<open>sublist ''const val VERSION = "1.0.0"'' ?c\<close>
    unfolding sublist_def by blast
  have \<open>?c = (?e @ ''const val VERSION = "1.0.0"\<newline>    '') @ ''const val MIN_SDK = 24'' @
      ''\<newline>    const val TARGET_SDK = 34\<newline>}\<newline>''\<close>
    by (simp add: config_content_def)
  then show \<open>sublist ''const val MIN_SDK = 24'' ?c\<close>
    unfolding sublist_def by blast
  have \<open>?c = (?e @ ''const val VERSION = "1.0.0"\<newline>    const val MIN_SDK = 24\<newline>    '')
      @ ''const val TARGET_SDK = 34'' @ ''\<newline>}\<newline>''\<close>
    by (simp add: config_content_def)
  then show \<open>sublist ''const val TARGET_SDK = 34'' ?c\<close>
    unfolding sublist_def by blast
qed

theorem config_emission:
  assumes \<open>safe_token game_id\<close>
    and \<open>setup_game_module env fs game_id game_name category base_path = (Returned True, fs')\<close>
  shows \<open>file_at fs' (base_path @ [game_id] @ package_dir game_id @ [''GameConfig.kt''])
           = Some (config_content game_id game_name category) \<and>
         prefix (''package com.roshni.games.game.'' @ game_id @ ''\<newline>'')
           (config_content game_id game_name category) \<and>
         sublist (''const val GAME_ID = "'' @ game_id @ ''"'')
           (config_content game_id game_name category) \<and>
         sublist (''const val GAME_NAME = "'' @ game_name @ ''"'')
           (config_content game_id game_name category) \<and>
         sublist (''const val CATEGORY = "'' @ category @ ''"'')
           (config_content game_id game_name category) \<and>
         sublist ''const val VERSION = "1.0.0"'' (config_content game_id game_name category) \<and>
         sublist ''const val MIN_SDK = 24'' (config_content game_id game_name category) \<and>
         sublist ''const val TARGET_SDK = 34'' (config_content game_id game_name category)\<close>
proof -
  from assms(2) have "try_body env (base_path @ [''template'']) (base_path @ [game_id])
      game_id game_name category fs = (Some (), fs')"
    by (simp add: setup_game_module_TrueD)
  then have "lookup fs' ((base_path @ [game_id]) @ package_dir game_id @ [''GameConfig.kt''])
      = Some (File (config_content game_id game_name category))"
    by (rule try_body_config_written)
  then have f: "file_at fs' (base_path @ [game_id] @ package_dir game_id @ [''GameConfig.kt''])
      = Some (config_content game_id game_name category)"
    by (simp add: file_at_def)
  show ?thesis
    by (intro conjI config_content_sublists f)
qed

text \<open>On the example, whose template has no \<^verbatim>\<open>GameConfig.kt\<close>.\<close>

theorem config_emission_witness:
  \<open>safe_token ''puzzle-007'' \<and>
   setup_game_module no_faults example_fs ''puzzle-007'' ''Amazing Puzzle'' ''puzzle'' [''game'']
     = (Returned True, example_result) \<and>
   file_at example_template (package_dir ''template'' @ [''GameConfig.kt'']) = None \<and>
   file_at example_result ([''game'', ''puzzle-007''] @ package_dir ''puzzle-007'' @ [''GameConfig.kt''])
     = Some (config_content ''puzzle-007'' ''Amazing Puzzle'' ''puzzle'') \<and>
   sublist ''const val GAME_NAME = "Amazing Puzzle"''
     (config_content ''puzzle-007'' ''Amazing Puzzle'' ''puzzle'')\<close>
proof -
  have n: "file_at example_template (package_dir ''template'' @ [''GameConfig.kt'']) = None"
    by code_simp
  from config_emission [OF safe_token_example example_run]
  have \<open>file_at example_result
      ([''game''] @ [''puzzle-007''] @ package_dir ''puzzle-007'' @ [''GameConfig.kt''])
      = Some (config_content ''puzzle-007'' ''Amazing Puzzle'' ''puzzle'')\<close>
    and \<open>sublist (''const val GAME_NAME = "'' @ ''Amazing Puzzle'' @ ''"'')
      (config_content ''puzzle-007'' ''Amazing Puzzle'' ''puzzle'')\<close>
    by blast+
  with n example_run safe_token_example show ?thesis by simp
qed

subsection \<open>Literal replacement\<close>

lemma str_replace_ne_prefix:
  "new \<noteq> [] \<Longrightarrow> hd new \<notin> set w \<Longrightarrow> prefix w (str_replace_ne old new s) \<Longrightarrow> prefix w s"
proof (induction old new s arbitrary: w rule: str_replace_ne.induct)
  case (1 old new)
  then show ?case by simp
next
  case (2 old new c cs)
  show ?case
  proof (cases w)
    case Nil
    then show ?thesis by simp
  next
    case (Cons a w')
    show ?thesis
    proof (cases "old \<noteq> [] \<and> prefix old (c # cs)")
      case True
      with "2.prems"(3) have "prefix (a # w') (new @ str_replace_ne old new (drop (length old) (c # cs)))"
        using Cons by simp
      with "2.prems"(1) have "a = hd new"
        by (cases new) (auto simp: prefix_def)
      with "2.prems"(2) Cons show ?thesis by simp
    next
      case False
      with "2.prems"(3) Cons have a: "a = c" and p: "prefix w' (str_replace_ne old new cs)"
        by auto
      from "2.prems"(2) Cons have "hd new \<notin> set w'" by simp
      from "2.IH"(2) [OF False "2.prems"(1) this p] a Cons show ?thesis by simp
    qed
  qed
qed

lemma sublist_append_not_recreated:
  assumes "old \<noteq> []" and "\<not> recreates old new" and "sublist old (new @ r)"
  shows "sublist old r"
proof -
  from assms(3) consider "sublist old new" | "sublist old r"
    | xs1 xs2 where "old = xs1 @ xs2" "suffix xs1 new" "prefix xs2 r"
    by (auto simp: sublist_append)
  then show ?thesis
  proof cases
    case 1
    with assms(2) show ?thesis by (simp add: recreates_def)
  next
    case 2
    then show ?thesis .
  next
    case 3
    show ?thesis
    proof (cases "xs1 = []")
      case True
      with 3 show ?thesis by (auto intro: prefix_imp_sublist)
    next
      case False
      show ?thesis
      proof (cases "xs2 = []")
        case True
        with 3 have "sublist old new" by (auto intro: suffix_imp_sublist)
        with assms(2) show ?thesis by (simp add: recreates_def)
      next
        case xs2: False
        let ?k = "length xs1"
        from 3(1) False xs2 have "1 \<le> ?k" "?k < length old" "take ?k old = xs1"
          by (auto simp: Suc_le_eq)
        with 3(2) have "?k \<in> set [1..<length old] \<and> suffix (take ?k old) new"
          by simp
        then have "list_ex (\<lambda>k. suffix (take k old) new) [1..<length old]"
          unfolding list_ex_iff by blast
        with assms(2) show ?thesis by (simp add: recreates_def)
      qed
    qed
  qed
qed

lemma str_replace_ne_no_occurrence:
  "old \<noteq> [] \<Longrightarrow> new \<noteq> [] \<Longrightarrow> hd new \<notin> set (tl old) \<Longrightarrow> \<not> recreates old new \<Longrightarrow>
   \<not> sublist old (str_replace_ne old new s)"
proof (induction old new s rule: str_replace_ne.induct)
  case (1 old new)
  then show ?case by simp
next
  case (2 old new c cs)
  show ?case
  proof (cases "old \<noteq> [] \<and> prefix old (c # cs)")
    case True
    have ih: "\<not> sublist old (str_replace_ne old new (drop (length old) (c # cs)))"
      by (rule "2.IH"(1) [OF True "2.prems"])
    have "str_replace_ne old new (c # cs)
        = new @ str_replace_ne old new (drop (length old) (c # cs))"
      using True by simp
    with ih sublist_append_not_recreated [OF "2.prems"(1,4)] show ?thesis by auto
  next
    case False
    have ih: "\<not> sublist old (str_replace_ne old new cs)"
      by (rule "2.IH"(2) [OF False "2.prems"])
    have eq: "str_replace_ne old new (c # cs) = c # str_replace_ne old new cs"
      using False by auto
    from "2.prems"(1) obtain h hs where old: "old = h # hs" by (cases old) auto
    have "\<not> prefix old (c # str_replace_ne old new cs)"
    proof
      assume "prefix old (c # str_replace_ne old new cs)"
      with old have oc: "h = c" and p: "prefix hs (str_replace_ne old new cs)" by auto
      from "2.prems"(3) old have "hd new \<notin> set hs" by simp
      from str_replace_ne_prefix [OF "2.prems"(2) this p] oc old False show False by simp
    qed
    with ih eq show ?thesis by (simp add: sublist_Cons_right)
  qed
qed

lemma str_replace_no_occurrence:
  assumes "old \<noteq> []" and "new \<noteq> []" and "hd new \<notin> set (tl old)" and "\<not> recreates old new"
  shows "\<not> sublist old (str_replace old new s)"
  using str_replace_ne_no_occurrence [OF assms] assms(1) by (simp add: str_replace_def)

lemma to_upper_not_lower: "\<not> is_lower (to_upper c)"
proof (cases "is_lower c")
  case False
  then show ?thesis by (simp add: to_upper_def)
next
  case True
  then have "(of_char c :: nat) - 32 < 256" unfolding is_lower_def by arith
  then have "(of_char (char_of ((of_char c :: nat) - 32) :: char) :: nat) = of_char c - 32"
    by (simp add: of_char_of)
  with True show ?thesis
    unfolding to_upper_def is_lower_def by (simp del: of_char_of) arith
qed

lemma to_upper_underscore: "to_upper c = CHR ''_'' \<Longrightarrow> c = CHR ''_''"
  using to_upper_lower_neq_us [of c] by (cases "is_lower c") (simp_all add: to_upper_def)

lemma hd_title_not_lower:
  "filter (\<lambda>c. c \<noteq> CHR ''_'') (title_from False s) \<noteq> [] \<Longrightarrow>
   \<not> is_lower (hd (filter (\<lambda>c. c \<noteq> CHR ''_'') (title_from False s)))"
proof (induction s)
  case Nil
  then show ?case by simp
next
  case (Cons c cs)
  show ?case
  proof (cases "to_upper c = CHR ''_''")
    case False
    then show ?thesis by (simp add: to_upper_not_lower)
  next
    case True
    then have "c = CHR ''_''" by (rule to_upper_underscore)
    then have "\<not> is_cased c" by (simp add: is_cased_def sep_us_facts)
    with True Cons show ?thesis by simp
  qed
qed

lemma hd_type_name_not_lower:
  "type_name game_id \<noteq> [] \<Longrightarrow> \<not> is_lower (hd (type_name game_id))"
  unfolding type_name_alt by (rule hd_title_not_lower)

lemma rewrite_kotlin_no_template:
  assumes "type_name game_id \<noteq> []" and "\<not> recreates ''Template'' (type_name game_id)"
  shows "\<not> sublist ''Template'' (rewrite_kotlin game_id content)"
proof -
  have "\<forall>c \<in> set ''emplate''. is_lower c"
    by (simp add: is_lower_def)
  with hd_type_name_not_lower [OF assms(1)]
  have "hd (type_name game_id) \<notin> set (tl ''Template'')"
    by auto
  with assms show ?thesis
    unfolding rewrite_kotlin_def by (intro str_replace_no_occurrence) simp_all
qed

lemma str_replace_ne_absent:
  "\<not> sublist old s \<Longrightarrow> str_replace_ne old new s = s"
  by (induction s) (auto simp: sublist_Cons_right)

lemma str_replace_absent:
  "old \<noteq> [] \<Longrightarrow> \<not> sublist old s \<Longrightarrow> str_replace old new s = s"
  by (simp add: str_replace_def str_replace_ne_absent)

lemma str_replace_ne_first_occurrence:
  "old \<noteq> [] \<Longrightarrow> \<not> sublist old (a @ butlast old) \<Longrightarrow>
   str_replace_ne old new (a @ old @ b) = a @ new @ str_replace_ne old new b"
proof (induction a)
  case Nil
  then show ?case by (cases old) auto
next
  case (Cons c a)
  have np: "\<not> prefix old (c # a @ old @ b)"
  proof
    assume p: "prefix old (c # a @ old @ b)"
    have "length old \<le> length ((c # a) @ butlast old)" by simp
    moreover have "(c # a) @ old @ b = ((c # a) @ butlast old) @ ([last old] @ b)"
      using Cons.prems(1) by simp
    ultimately have "prefix old ((c # a) @ butlast old)"
      using p by (metis append_Cons prefix_length_prefix prefixI)
    then have "sublist old ((c # a) @ butlast old)" by (rule prefix_imp_sublist)
    with Cons.prems(2) show False by simp
  qed
  from Cons.prems(2) have "\<not> sublist old (a @ butlast old)"
    by (auto simp: sublist_Cons_right)
  from Cons.IH [OF Cons.prems(1) this] np show ?case by simp
qed

lemma str_replace_first_occurrence:
  "old \<noteq> [] \<Longrightarrow> \<not> sublist old (a @ butlast old) \<Longrightarrow>
   str_replace old new (a @ old @ b) = a @ new @ str_replace old new b"
  by (simp add: str_replace_def str_replace_ne_first_occurrence)

subsection \<open>Listing the Kotlin files\<close>

lemma rglob_complete_aux:
  shows "\<forall>p m. lookup n p = Some m \<longrightarrow> p \<noteq> [] \<longrightarrow> is_kt (last p) \<longrightarrow> p \<in> set (rglob n)"
    and "\<forall>x s m n'. map_of es x = Some n' \<longrightarrow> lookup n' s = Some m \<longrightarrow> is_kt (last (x # s)) \<longrightarrow>
      x # s \<in> set (rglob_entries es)"
proof (induction n and es rule: rglob_rglob_entries.induct)
  case (1 c)
  show ?case
  proof (intro allI impI)
    fix p m assume "lookup (File c) p = Some m" "p \<noteq> []"
    then show "p \<in> set (rglob (File c))" by (cases p) auto
  qed
next
  case (2 es)
  show ?case
  proof (intro allI impI)
    fix p m assume l: "lookup (Dir es) p = Some m" and ne: "p \<noteq> []" and kt: "is_kt (last p)"
    from ne obtain x s where p: "p = x # s" by (cases p) auto
    with l obtain n' where "map_of es x = Some n'" "lookup n' s = Some m"
      by (auto split: option.splits)
    with 2 kt p show "p \<in> set (rglob (Dir es))" by auto
  qed
next
  case 3
  show ?case by simp
next
  case (4 x n es)
  show ?case
  proof (intro allI impI)
    fix y s m n'
    assume mo: "map_of ((x, n) # es) y = Some n'" and l: "lookup n' s = Some m"
      and kt: "is_kt (last (y # s))"
    show "y # s \<in> set (rglob_entries ((x, n) # es))"
    proof (cases "y = x")
      case True
      with mo have n': "n' = n" by simp
      show ?thesis
      proof (cases s)
        case Nil
        with kt True show ?thesis by simp
      next
        case (Cons a s')
        with l n' kt have "s \<in> set (rglob n)" using 4(1) by auto
        with True show ?thesis by simp
      qed
    next
      case False
      with mo have "map_of es y = Some n'" by simp
      with l kt 4(2) have "y # s \<in> set (rglob_entries es)" by blast
      then show ?thesis by simp
    qed
  qed
qed

lemma rglob_complete:
  "lookup n p = Some m \<Longrightarrow> p \<noteq> [] \<Longrightarrow> is_kt (last p) \<Longrightarrow> p \<in> set (rglob n)"
  using rglob_complete_aux by blast

lemma rglob_heads_aux:
  shows "[] \<notin> set (rglob n)"
    and "\<forall>p \<in> set (rglob_entries es). p \<noteq> [] \<and> hd p \<in> fst ` set es"
  by (induction n and es rule: rglob_rglob_entries.induct) auto

lemma rglob_nonempty: "[] \<notin> set (rglob n)"
  using rglob_heads_aux by blast

lemma rglob_entries_heads: "p \<in> set (rglob_entries es) \<Longrightarrow> p \<noteq> [] \<and> hd p \<in> fst ` set es"
  using rglob_heads_aux by blast

lemma rglob_distinct_aux:
  shows "wf_node n \<longrightarrow> distinct (rglob n)"
    and "distinct (map fst es) \<longrightarrow> wf_entries es \<longrightarrow> distinct (rglob_entries es)"
proof (induction n and es rule: rglob_rglob_entries.induct)
  case (1 c)
  show ?case by simp
next
  case (2 es)
  then show ?case by simp
next
  case 3
  show ?case by simp
next
  case (4 x n es)
  show ?case
  proof (intro impI)
    assume d: "distinct (map fst ((x, n) # es))" and w: "wf_entries ((x, n) # es)"
    from d have x: "x \<notin> fst ` set es" and d': "distinct (map fst es)" by auto
    from w 4 d' have dn: "distinct (rglob n)" and de: "distinct (rglob_entries es)" by auto
    have dm: "distinct (map ((#) x) (rglob n))"
      using dn by (simp add: distinct_map)
    have a: "[x] \<notin> set (map ((#) x) (rglob n))"
      using rglob_nonempty [of n] by auto
    have b: "\<And>p. p \<in> set (rglob_entries es) \<Longrightarrow> hd p \<noteq> x"
      using rglob_entries_heads x by blast
    have c: "[x] \<notin> set (rglob_entries es)"
      using b by fastforce
    have e: "set (map ((#) x) (rglob n)) \<inter> set (rglob_entries es) = {}"
      using b by fastforce
    from dm de a c e show "distinct (rglob_entries ((x, n) # es))"
      by auto
  qed
qed

lemma rglob_distinct: "wf_node n \<Longrightarrow> distinct (rglob n)"
  using rglob_distinct_aux by blast

lemma wf_entries_member: "wf_entries es \<Longrightarrow> (x, n) \<in> set es \<Longrightarrow> wf_node n"
  by (induction es) auto

lemma wf_node_lookup: "wf_node fs \<Longrightarrow> lookup fs p = Some n \<Longrightarrow> wf_node n"
proof (induction p arbitrary: fs)
  case Nil
  then show ?case by simp
next
  case (Cons x p)
  from Cons.prems obtain es n' where fs: "fs = Dir es" and m: "map_of es x = Some n'"
    and l: "lookup n' p = Some n"
    by (cases fs) (auto split: option.splits)
  from m have "(x, n') \<in> set es" by (rule map_of_SomeD)
  with Cons.prems(1) fs have "wf_node n'" by (auto intro: wf_entries_member)
  from Cons.IH [OF this l] show ?case .
qed

subsection \<open>The files after each step\<close>

lemma path_cases:
  obtains (same) "q = p" | (below) r where "r \<noteq> []" "q = p @ r"
        | (above) "strict_prefix q p" | (apart) "p \<parallel> q"
proof (cases "prefix p q")
  case True
  then obtain r where "q = p @ r" by (auto simp: prefix_def)
  then show ?thesis using same below by (cases "r = []") auto
next
  case False
  then show ?thesis using above apart
    by (cases "prefix q p") (auto simp: strict_prefix_def parallel_def)
qed

lemma write_file_file_at:
  assumes "write_file p c fs = (Some u, fs')"
  shows "file_at fs' = (file_at fs)(p \<mapsto> c)"
proof
  fix q
  from assms have put: "put fs p (File c) = Some fs'" by (rule write_file_SomeD)
  from assms have nd: "\<And>es. lookup fs p \<noteq> Some (Dir es)"
    by (auto simp: write_file_def split: option.splits node.splits)
  show "file_at fs' q = ((file_at fs)(p \<mapsto> c)) q"
  proof (cases q p rule: path_cases)
    case same
    with put_same [OF put] show ?thesis by (simp add: file_at_def)
  next
    case (below r)
    have "lookup fs' (p @ r) = None"
      using put_below [OF put, of r] below(1) by (cases r) auto
    moreover have "lookup fs (p @ r) = None"
    proof (cases "lookup fs p")
      case None
      then show ?thesis by (rule lookup_below_absent)
    next
      case (Some n)
      with nd obtain c' where "lookup fs p = Some (File c')" by (cases n) auto
      then show ?thesis using below(1) by (rule lookup_below_file)
    qed
    ultimately show ?thesis using below by (auto simp: file_at_def)
  next
    case above
    from put_ancestor [OF put above] above show ?thesis
      by (auto simp: file_at_def)
  next
    case apart
    from put_parallel [OF put apart] apart show ?thesis
      by (auto simp: file_at_def)
  qed
qed

lemma read_file_SomeD:
  "read_file p fs = (Some content, fs') \<Longrightarrow>
   fs' = fs \<and> (\<exists>c. lookup fs p = Some (File c) \<and> content = universal_newlines c)"
  by (auto simp: read_file_def split: option.splits node.splits)

lemma rewrite_kotlin_files_file_at:
  "rewrite_kotlin_files env g game_id d ps fs = (Some u, fs') \<Longrightarrow> distinct ps \<Longrightarrow>
   file_at fs' = (\<lambda>q. if q \<in> (@) d ` set ps
                      then map_option (rewrite_kotlin game_id \<circ> universal_newlines) (file_at fs q)
                      else file_at fs q)"
proof (induction ps arbitrary: fs)
  case Nil
  then show ?case by simp
next
  case (Cons p ps)
  from Cons.prems(1) obtain content fs1 u2 fs2 where
    1: "inject env g (OpReadKt p) (read_file (d @ p)) fs = (Some content, fs1)" and
    2: "inject env g (OpWriteKt p) (write_file (d @ p) (rewrite_kotlin game_id content)) fs1
          = (Some u2, fs2)" and
    3: "rewrite_kotlin_files env g game_id d ps fs2 = (Some u, fs')"
    by (auto split: prod.splits option.splits)
  from 1 obtain c where fs1: "fs1 = fs" and c: "lookup fs (d @ p) = Some (File c)"
    and content: "content = universal_newlines c"
    by (auto dest!: inject_SomeD read_file_SomeD)
  from 2 fs1 have "write_file (d @ p) (rewrite_kotlin game_id content) fs = (Some u2, fs2)"
    by (auto dest: inject_SomeD)
  then have w: "file_at fs2 = (file_at fs)(d @ p \<mapsto> rewrite_kotlin game_id content)"
    by (rule write_file_file_at)
  from Cons.prems(2) have dps: "distinct ps" and p: "p \<notin> set ps" by auto
  have notin: "d @ p \<notin> (@) d ` set ps" using p by auto
  note ih = Cons.IH [OF 3 dps]
  show ?case
  proof
    fix q
    show "file_at fs' q = (if q \<in> (@) d ` set (p # ps)
                      then map_option (rewrite_kotlin game_id \<circ> universal_newlines) (file_at fs q)
                      else file_at fs q)"
    proof (cases "q = d @ p")
      case True
      have "file_at fs (d @ p) = Some c" using c by (simp add: file_at_def)
      with True ih notin w content show ?thesis by simp
    next
      case False
      with ih w show ?thesis by auto
    qed
  qed
qed

lemma copytree_SomeD:
  assumes "copytree env src dst fs = (Some u, fs')"
  shows "\<not> path_exists fs dst \<and> is_dir fs src \<and> (\<forall>r. lookup fs' (dst @ r) = lookup fs (src @ r))"
proof -
  from assms obtain es fs1 where src: "lookup fs src = Some (Dir es)"
    and ne: "\<not> path_exists fs dst" and put: "put fs1 dst (Dir es) = Some fs'"
    by (auto simp: copytree_def split: option.splits node.splits if_splits dest!: inject_SomeD)
  from put_below [OF put] src have "\<forall>r. lookup fs' (dst @ r) = lookup fs (src @ r)"
    by (simp add: lookup_append)
  with src ne show ?thesis by (simp add: is_dir_def)
qed

lemma update_build_gradle_SomeD:
  assumes "update_build_gradle env g game_id fs = (Some u, fs')"
  shows "file_at fs' (g @ [''build.gradle.kts''])
           = map_option (rewrite_build game_id \<circ> universal_newlines)
               (file_at fs (g @ [''build.gradle.kts''])) \<and>
         (\<forall>q. (g @ [''build.gradle.kts'']) \<parallel> q \<longrightarrow> lookup fs' q = lookup fs q)"
proof -
  let ?b = "g @ [''build.gradle.kts'']"
  from assms obtain e fs0 where
    e: "exists_io env OpExistsBuild ?b fs = (Some e, fs0)" and
    rest: "(if e then
          and_then (inject env g OpReadBuild (read_file ?b))
            (\<lambda>content.
          and_then (inject env g OpWriteBuild
                      (write_file ?b (rewrite_build game_id content))) (\<lambda>u.
          print_line env 65))
        else return_io ()) fs0 = (Some u, fs')"
    unfolding update_build_gradle_def Let_def by (elim and_then_SomeE)
  from e have fs0: "fs0 = fs" and ev: "e = path_exists fs ?b"
    by (auto dest: exists_io_SomeD)
  show ?thesis
  proof (cases e)
    case False
    with rest fs0 have "fs' = fs" by (simp add: return_io_def)
    with False ev show ?thesis by (simp add: file_at_def path_exists_def)
  next
    case True
    with rest fs0 obtain content fs1 u2 fs2 where
      1: "inject env g OpReadBuild (read_file ?b) fs = (Some content, fs1)" and
      2: "inject env g OpWriteBuild (write_file ?b (rewrite_build game_id content)) fs1
            = (Some u2, fs2)" and
      3: "print_line env 65 fs2 = (Some u, fs')"
      by (auto elim!: and_then_SomeE)
    from 3 have fs2: "fs2 = fs'" by (auto dest: print_line_SomeD)
    from 1 obtain c where fs1: "fs1 = fs" and c: "lookup fs ?b = Some (File c)"
      and content: "content = universal_newlines c"
      by (auto dest!: inject_SomeD read_file_SomeD)
    from 2 fs1 fs2 have w: "write_file ?b (rewrite_build game_id content) fs = (Some u2, fs')"
      by (auto dest: inject_SomeD)
    from write_file_file_at [OF w] c content
    have "file_at fs' ?b = map_option (rewrite_build game_id \<circ> universal_newlines) (file_at fs ?b)"
      by (simp add: file_at_def)
    moreover from w have "put fs ?b (File (rewrite_build game_id content)) = Some fs'"
      by (rule write_file_SomeD)
    then have "\<forall>q. ?b \<parallel> q \<longrightarrow> lookup fs' q = lookup fs q"
      by (auto dest: put_parallel)
    ultimately show ?thesis by simp
  qed
qed

lemma parallel_diverge: "x \<noteq> y \<Longrightarrow> (g @ x # r) \<parallel> (g @ y # s)"
  by (induction g) (auto simp: parallel_def)

lemma rename_SomeD:
  assumes "rename src dst fs = (Some u, fs')" and "src \<parallel> dst"
  shows "(\<forall>r. lookup fs' (dst @ r) = lookup fs (src @ r)) \<and>
         (\<forall>q. src \<parallel> q \<longrightarrow> dst \<parallel> q \<longrightarrow> lookup fs' q = lookup fs q)"
proof -
  from assms(2) have "src \<noteq> dst" by (auto simp: parallel_def)
  with assms(1) obtain n fs1 where n: "lookup fs src = Some n"
    and rm: "remove fs src = Some fs1" and put: "put fs1 dst n = Some fs'"
    by (auto simp: rename_def split: option.splits if_splits)
  have "\<forall>r. lookup fs' (dst @ r) = lookup fs (src @ r)"
    using put_below [OF put] n by (simp add: lookup_append)
  moreover have "\<forall>q. src \<parallel> q \<longrightarrow> dst \<parallel> q \<longrightarrow> lookup fs' q = lookup fs q"
    using put_parallel [OF put] remove_parallel [OF rm] by simp
  ultimately show ?thesis by simp
qed

lemma file_at_cong: "lookup fs p = lookup fs' q \<Longrightarrow> file_at fs p = file_at fs' q"
  by (simp add: file_at_def)

lemma build_apart_from_package_dir: "(g @ [''build.gradle.kts'']) \<parallel> (g @ package_dir x @ r)"
  unfolding package_dir_def using parallel_diverge [of "''build.gradle.kts''" "''src''" g "[]"]
  by simp

lemma package_dirs_apart:
  assumes "x \<noteq> y"
  shows "(g @ package_dir x) \<parallel> (g @ package_dir y)"
proof -
  let ?h = "g @ [''src'', ''main'', ''kotlin'', ''com'', ''roshni'', ''games'', ''game'']"
  from assms have "(?h @ x # []) \<parallel> (?h @ y # [])" by (rule parallel_diverge)
  then show ?thesis by (simp add: package_dir_def)
qed

lemma update_package_structure_SomeD:
  assumes "update_package_structure env g game_id fs = (Some u, fs')"
  shows "(\<forall>r. lookup fs' (g @ package_dir game_id @ r)
              = lookup fs (g @ package_dir
                  (if path_exists fs (g @ package_dir ''template'') then ''template'' else game_id) @ r)) \<and>
         lookup fs' (g @ [''build.gradle.kts'']) = lookup fs (g @ [''build.gradle.kts''])"
proof -
  from assms obtain e fs0 where
    e: "exists_io env OpExistsSrc (g @ package_dir ''template'') fs = (Some e, fs0)" and
    rest: "(if e then
          and_then (inject env g OpRename
                      (rename (g @ package_dir ''template'') (g @ package_dir game_id))) (\<lambda>u.
          print_line env 74)
        else return_io ()) fs0 = (Some u, fs')"
    unfolding update_package_structure_def Let_def by (elim and_then_SomeE)
  from e have fs0: "fs0 = fs" and ev: "e = path_exists fs (g @ package_dir ''template'')"
    by (auto dest: exists_io_SomeD)
  show ?thesis
  proof (cases e)
    case False
    with rest fs0 have "fs' = fs" by (simp add: return_io_def)
    with False ev show ?thesis by simp
  next
    case True
    with rest fs0 obtain u1 fs1 where
      1: "inject env g OpRename
            (rename (g @ package_dir ''template'') (g @ package_dir game_id)) fs = (Some u1, fs1)"
      and 2: "print_line env 74 fs1 = (Some u, fs')"
      by (auto elim!: and_then_SomeE)
    from 2 have "fs1 = fs'" by (auto dest: print_line_SomeD)
    with 1 have rn: "rename (g @ package_dir ''template'') (g @ package_dir game_id) fs
        = (Some u1, fs')"
      by (auto dest: inject_SomeD)
    from True ev have ex: "path_exists fs (g @ package_dir ''template'')" by simp
    show ?thesis
    proof (cases "game_id = ''template''")
      case same: True
      with rn ex have "fs' = fs"
        by (auto simp: rename_def path_exists_def split: option.splits)
      with same ex show ?thesis by simp
    next
      case False
      then have apart: "(g @ package_dir ''template'') \<parallel> (g @ package_dir game_id)"
        by (intro package_dirs_apart) simp
      note r = rename_SomeD [OF rn apart]
      have b1: "(g @ package_dir ''template'') \<parallel> (g @ [''build.gradle.kts''])"
        using build_apart_from_package_dir [of g "''template''" "[]"] by (simp add: parallel_commute)
      have b2: "(g @ package_dir game_id) \<parallel> (g @ [''build.gradle.kts''])"
        using build_apart_from_package_dir [of g game_id "[]"] by (simp add: parallel_commute)
      from r b1 b2 ex show ?thesis by simp
    qed
  qed
qed

lemma update_kotlin_files_SomeD:
  assumes "update_kotlin_files env g game_id fs = (Some u, fs')"
  shows "rewrite_kotlin_files env g game_id (g @ package_dir game_id)
           (case lookup fs (g @ package_dir game_id) of None \<Rightarrow> [] | Some n \<Rightarrow> rglob n) fs
           = (Some (), fs')"
proof -
  from assms obtain ps fs0 u1 fs1 where
    1: "rglob_io env g (g @ package_dir game_id) fs = (Some ps, fs0)" and
    2: "rewrite_kotlin_files env g game_id (g @ package_dir game_id) ps fs0 = (Some u1, fs1)" and
    3: "print_line env 96 fs1 = (Some u, fs')"
    unfolding update_kotlin_files_def Let_def by (elim and_then_SomeE)
  from 1 have "fs0 = fs"
    and "ps = (case lookup fs (g @ package_dir game_id) of None \<Rightarrow> [] | Some n \<Rightarrow> rglob n)"
    by (auto simp: rglob_io_def dest!: inject_SomeD)
  moreover from 3 have "fs1 = fs'" by (auto dest: print_line_SomeD)
  ultimately show ?thesis using 2 by simp
qed

lemma try_body_SomeE:
  assumes "try_body env t g game_id game_name category fs = (Some u, fs')"
  obtains fs1 fs2 fs3 fs4 where
    "copytree env t g fs = (Some (), fs1)"
    "update_build_gradle env g game_id fs1 = (Some (), fs2)"
    "update_package_structure env g game_id fs2 = (Some (), fs3)"
    "update_kotlin_files env g game_id fs3 = (Some (), fs4)"
    "create_game_config env g game_id game_name category fs4 = (Some u, fs')"
proof -
  from assms obtain u1 fs1 u1' fs1' u2 fs2 u3 fs3 u4 fs4 where
    "copytree env t g fs = (Some u1, fs1)"
    "print_line env 44 fs1 = (Some u1', fs1')"
    "update_build_gradle env g game_id fs1' = (Some u2, fs2)"
    "update_package_structure env g game_id fs2 = (Some u3, fs3)"
    "update_kotlin_files env g game_id fs3 = (Some u4, fs4)"
    "create_game_config env g game_id game_name category fs4 = (Some u, fs')"
    unfolding try_body_def by (elim and_then_SomeE)
  moreover from this(2) have "fs1' = fs1" by (auto dest: print_line_SomeD)
  ultimately show ?thesis using that by simp
qed

lemma try_body_files:
  assumes body: "try_body env t g game_id game_name category fs = (Some u, fs')"
    and wf: "wf_node fs"
  shows "file_at fs' (g @ [''build.gradle.kts''])
           = map_option (rewrite_build game_id \<circ> universal_newlines)
               (file_at fs (t @ [''build.gradle.kts'']))"
    and "p \<noteq> [] \<Longrightarrow> is_kt (last p) \<Longrightarrow> p \<noteq> [''GameConfig.kt''] \<Longrightarrow>
         file_at fs' (g @ package_dir game_id @ p)
           = map_option (rewrite_kotlin game_id \<circ> universal_newlines)
               (file_at fs (t @ package_dir
                  (if path_exists fs (t @ package_dir ''template'') then ''template'' else game_id) @ p))"
proof -
  let ?b = "[''build.gradle.kts'']"
  let ?d = "g @ package_dir game_id"
  let ?F = "rewrite_kotlin game_id \<circ> universal_newlines"
  from body obtain fs1 fs2 fs3 fs4 where
    s1: "copytree env t g fs = (Some (), fs1)" and
    s2: "update_build_gradle env g game_id fs1 = (Some (), fs2)" and
    s3: "update_package_structure env g game_id fs2 = (Some (), fs3)" and
    s4: "update_kotlin_files env g game_id fs3 = (Some (), fs4)" and
    s5: "create_game_config env g game_id game_name category fs4 = (Some u, fs')"
    by (rule try_body_SomeE)
  from copytree_SomeD [OF s1] have l1: "\<And>r. lookup fs1 (g @ r) = lookup fs (t @ r)" by simp
  note u2 = update_build_gradle_SomeD [OF s2]
  have l2: "lookup fs2 (g @ package_dir x @ r) = lookup fs (t @ package_dir x @ r)" for x r
    using u2 build_apart_from_package_dir [of g x r] l1 [of "package_dir x @ r"] by simp
  have ex: "path_exists fs2 (g @ package_dir ''template'') = path_exists fs (t @ package_dir ''template'')"
    using l2 [of "''template''" "[]"] by (simp add: path_exists_def)
  let ?X = "if path_exists fs (t @ package_dir ''template'') then ''template'' else game_id"
  note u3 = update_package_structure_SomeD [OF s3]
  have l3: "lookup fs3 (?d @ r) = lookup fs (t @ package_dir ?X @ r)" for r
    using u3 ex l2 [of ?X r] by simp
  have b3: "file_at fs3 (g @ ?b) = map_option (rewrite_build game_id \<circ> universal_newlines)
      (file_at fs (t @ ?b))"
  proof -
    have "file_at fs3 (g @ ?b) = file_at fs2 (g @ ?b)"
      using u3 by (intro file_at_cong) simp
    moreover have "file_at fs1 (g @ ?b) = file_at fs (t @ ?b)"
      by (intro file_at_cong l1)
    ultimately show ?thesis using u2 by simp
  qed
  define ps where "ps = (case lookup fs3 ?d of None \<Rightarrow> [] | Some n \<Rightarrow> rglob n)"
  have dps: "distinct ps"
  proof (cases "lookup fs3 ?d")
    case None
    then show ?thesis by (simp add: ps_def)
  next
    case (Some n)
    with l3 [of "[]"] have "lookup fs (t @ package_dir ?X) = Some n" by simp
    with wf have "wf_node n" by (rule wf_node_lookup)
    with Some show ?thesis by (simp add: ps_def rglob_distinct)
  qed
  from update_kotlin_files_SomeD [OF s4]
  have "rewrite_kotlin_files env g game_id ?d ps fs3 = (Some (), fs4)"
    by (simp add: ps_def)
  from rewrite_kotlin_files_file_at [OF this dps]
  have f4: "file_at fs4 q = (if q \<in> (@) ?d ` set ps then map_option ?F (file_at fs3 q)
                            else file_at fs3 q)" for q
    by simp
  from create_game_config_SomeD [OF s5] have "write_file (?d @ [''GameConfig.kt''])
      (config_content game_id game_name category) fs4 = (Some (), fs')"
    by simp
  then have f5: "file_at fs' = (file_at fs4)(?d @ [''GameConfig.kt'']
      \<mapsto> config_content game_id game_name category)"
    by (rule write_file_file_at)
  have nb: "g @ ?b \<noteq> ?d @ r" for r
    using build_apart_from_package_dir [of g game_id r] by (auto simp: parallel_def)
  show "file_at fs' (g @ ?b) = map_option (rewrite_build game_id \<circ> universal_newlines)
      (file_at fs (t @ ?b))"
  proof -
    have "g @ ?b \<notin> (@) ?d ` set ps" using nb by auto
    with f4 [of "g @ ?b"] f5 nb [of "[''GameConfig.kt'']"] b3 show ?thesis by simp
  qed
  show "file_at fs' (g @ package_dir game_id @ p) = map_option ?F (file_at fs (t @ package_dir ?X @ p))"
    if p: "p \<noteq> []" and kt: "is_kt (last p)" and nc: "p \<noteq> [''GameConfig.kt'']"
  proof -
    have e3: "file_at fs3 (?d @ p) = file_at fs (t @ package_dir ?X @ p)"
      by (intro file_at_cong l3)
    have "file_at fs' (?d @ p) = file_at fs4 (?d @ p)"
      using f5 nc by simp
    also have "\<dots> = map_option ?F (file_at fs3 (?d @ p))"
    proof (cases "p \<in> set ps")
      case True
      with f4 [of "?d @ p"] show ?thesis by simp
    next
      case False
      have "file_at fs3 (?d @ p) = None"
      proof (rule ccontr)
        assume "file_at fs3 (?d @ p) \<noteq> None"
        then obtain c where c: "lookup fs3 (?d @ p) = Some (File c)"
          by (auto simp: file_at_def split: option.splits node.splits)
        then obtain n where n: "lookup fs3 ?d = Some n" and np: "lookup n p = Some (File c)"
          by (auto simp: lookup_append split: option.splits)
        from np p kt have "p \<in> set (rglob n)" by (rule rglob_complete)
        with n False show False by (simp add: ps_def)
      qed
      moreover from False have "?d @ p \<notin> (@) ?d ` set ps" by auto
      ultimately show ?thesis using f4 [of "?d @ p"] by simp
    qed
    finally show ?thesis using e3 by simp
  qed
qed

subsection \<open>The rewritten files\<close>

lemma setup_game_module_files:
  assumes "setup_game_module env fs game_id game_name category base_path = (Returned True, fs')"
    and "wf_node fs"
  shows "file_at fs' (base_path @ [game_id] @ [''build.gradle.kts''])
           = map_option (rewrite_build game_id \<circ> universal_newlines)
               (file_at fs (base_path @ [''template''] @ [''build.gradle.kts'']))"
    and "p \<noteq> [] \<Longrightarrow> is_kt (last p) \<Longrightarrow> p \<noteq> [''GameConfig.kt''] \<Longrightarrow>
         file_at fs' (base_path @ [game_id] @ package_dir game_id @ p)
           = map_option (rewrite_kotlin game_id \<circ> universal_newlines)
               (file_at fs (base_path @ [''template''] @ package_dir
                  (if path_exists fs (base_path @ [''template''] @ package_dir ''template'')
                   then ''template'' else game_id) @ p))"
proof -
  from assms(1) have b: "try_body env (base_path @ [''template'']) (base_path @ [game_id])
      game_id game_name category fs = (Some (), fs')"
    by (simp add: setup_game_module_TrueD)
  from try_body_files(1) [OF b assms(2)]
  show "file_at fs' (base_path @ [game_id] @ [''build.gradle.kts''])
           = map_option (rewrite_build game_id \<circ> universal_newlines)
               (file_at fs (base_path @ [''template''] @ [''build.gradle.kts'']))"
    by simp
  assume "p \<noteq> []" "is_kt (last p)" "p \<noteq> [''GameConfig.kt'']"
  from try_body_files(2) [OF b assms(2) this]
  show "file_at fs' (base_path @ [game_id] @ package_dir game_id @ p)
           = map_option (rewrite_kotlin game_id \<circ> universal_newlines)
               (file_at fs (base_path @ [''template''] @ package_dir
                  (if path_exists fs (base_path @ [''template''] @ package_dir ''template'')
                   then ''template'' else game_id) @ p))"
    by simp
qed

lemma wf_example_fs: "wf_node example_fs"
  by code_simp

text \<open>
  Claim C10. After a call that returned True, for an ASCII id and a file system with
  distinct names, the build descriptor of the module is the template's, read as text,
  with \<^verbatim>\<open>com.roshni.games.game.GAME_ID\<close> and then \<^verbatim>\<open>GAME_ID\<close> replaced by
  \<^verbatim>\<open>str.replace\<close>; and every Kotlin file below the renamed package directory, other
  than the generated \<^verbatim>\<open>GameConfig.kt\<close>, is the template's file with the package
  declaration and then \<^verbatim>\<open>Template\<close> replaced, the latter by the title-cased id without
  its separators (\<^verbatim>\<open>gameBOX 2d\<close> is title-cased to \<^verbatim>\<open>Gamebox 2D\<close>). The replacement
  looks at nothing but the characters of the token: the first occurrence of \<open>old\<close> in a
  text is replaced whatever stands before and after it and the rest is treated in the
  same way, and a text without an occurrence is left as it is.
\<close>

theorem literal_substitution:
  assumes "safe_token game_id" and "ascii_only game_id" and "wf_node fs"
    and "setup_game_module env fs game_id game_name category base_path = (Returned True, fs')"
  shows "file_at fs' (base_path @ [game_id] @ [''build.gradle.kts''])
           = map_option
               (\<lambda>c. str_replace ''GAME_ID'' game_id
                      (str_replace ''com.roshni.games.game.GAME_ID''
                         (''com.roshni.games.game.'' @ game_id) (universal_newlines c)))
               (file_at fs (base_path @ [''template''] @ [''build.gradle.kts''])) \<and>
         (\<forall>p. p \<noteq> [] \<and> is_kt (last p) \<and> p \<noteq> [''GameConfig.kt''] \<longrightarrow>
            file_at fs' (base_path @ [game_id] @ package_dir game_id @ p)
              = map_option
                  (\<lambda>c. str_replace ''Template''
                         (str_replace ''_'' [] (title (str_replace ''-'' ''_'' game_id)))
                         (str_replace ''package com.roshni.games.game.template''
                            (''package com.roshni.games.game.'' @ game_id)
                            (universal_newlines c)))
                  (file_at fs (base_path @ [''template''] @ package_dir
                     (if path_exists fs (base_path @ [''template''] @ package_dir ''template'')
                      then ''template'' else game_id) @ p))) \<and>
         title ''gameBOX 2d'' = ''Gamebox 2D'' \<and>
         (\<forall>old new a b. old \<noteq> [] \<and> \<not> sublist old (a @ butlast old) \<longrightarrow>
            str_replace old new (a @ old @ b) = a @ new @ str_replace old new b) \<and>
         (\<forall>old new a. old \<noteq> [] \<and> \<not> sublist old a \<longrightarrow> str_replace old new a = a)"
proof -
  have rb: "rewrite_build game_id \<circ> universal_newlines
      = (\<lambda>c. str_replace ''GAME_ID'' game_id
                (str_replace ''com.roshni.games.game.GAME_ID''
                   (''com.roshni.games.game.'' @ game_id) (universal_newlines c)))"
    by (simp add: fun_eq_iff rewrite_build_def)
  have rk: "rewrite_kotlin game_id \<circ> universal_newlines
      = (\<lambda>c. str_replace ''Template''
                (str_replace ''_'' [] (title (str_replace ''-'' ''_'' game_id)))
                (str_replace ''package com.roshni.games.game.template''
                   (''package com.roshni.games.game.'' @ game_id) (universal_newlines c)))"
    by (simp add: fun_eq_iff rewrite_kotlin_def type_name_def)
  have t: "title ''gameBOX 2d'' = ''Gamebox 2D''"
    by code_simp
  note f = setup_game_module_files [OF assms(4,3)]
  from f(1) have b: "file_at fs' (base_path @ [game_id] @ [''build.gradle.kts''])
           = map_option
               (\<lambda>c. str_replace ''GAME_ID'' game_id
                      (str_replace ''com.roshni.games.game.GAME_ID''
                         (''com.roshni.games.game.'' @ game_id) (universal_newlines c)))
               (file_at fs (base_path @ [''template''] @ [''build.gradle.kts'']))"
    by (simp only: rb)
  have k: "\<forall>p. p \<noteq> [] \<and> is_kt (last p) \<and> p \<noteq> [''GameConfig.kt''] \<longrightarrow>
            file_at fs' (base_path @ [game_id] @ package_dir game_id @ p)
              = map_option
                  (\<lambda>c. str_replace ''Template''
                         (str_replace ''_'' [] (title (str_replace ''-'' ''_'' game_id)))
                         (str_replace ''package com.roshni.games.game.template''
                            (''package com.roshni.games.game.'' @ game_id)
                            (universal_newlines c)))
                  (file_at fs (base_path @ [''template''] @ package_dir
                     (if path_exists fs (base_path @ [''template''] @ package_dir ''template'')
                      then ''template'' else game_id) @ p))"
    using f(2) by (simp only: rk) blast
  from b k t str_replace_first_occurrence str_replace_absent show ?thesis
    by blast
qed

text \<open>
  On the example: \<^verbatim>\<open>GAME_ID\<close> inside \<^verbatim>\<open>MY_GAME_ID_X\<close> and \<^verbatim>\<open>Template\<close> inside
  \<^verbatim>\<open>BaseTemplateX\<close> are replaced.
\<close>

theorem literal_substitution_witness:
  "safe_token ''puzzle-007'' \<and> ascii_only ''puzzle-007'' \<and> wf_node example_fs \<and>
   setup_game_module no_faults example_fs ''puzzle-007'' ''Amazing Puzzle'' ''puzzle'' [''game'']
     = (Returned True, example_result) \<and>
   file_at example_result [''game'', ''puzzle-007'', ''build.gradle.kts'']
     = Some ''namespace = com.roshni.games.game.puzzle-007; id = MY_puzzle-007_X'' \<and>
   file_at example_result ([''game'', ''puzzle-007''] @ package_dir ''puzzle-007'' @ [''TemplateGame.kt''])
     = Some ''package com.roshni.games.game.puzzle-007; import com.roshni.games.game.template.util.X; class Puzzle007Game : BasePuzzle007X''"
proof -
  have asc: "ascii_only ''puzzle-007''" by code_simp
  note t = literal_substitution [OF safe_token_example asc wf_example_fs example_run]
  have b: "map_option
      (\<lambda>c. str_replace ''GAME_ID'' ''puzzle-007''
             (str_replace ''com.roshni.games.game.GAME_ID''
                (''com.roshni.games.game.'' @ ''puzzle-007'') (universal_newlines c)))
      (file_at example_fs ([''game''] @ [''template''] @ [''build.gradle.kts'']))
    = Some ''namespace = com.roshni.games.game.puzzle-007; id = MY_puzzle-007_X''"
    by code_simp
  have x: "path_exists example_fs ([''game''] @ [''template''] @ package_dir ''template'')"
    by code_simp
  have k: "map_option
      (\<lambda>c. str_replace ''Template''
             (str_replace ''_'' [] (title (str_replace ''-'' ''_'' ''puzzle-007'')))
             (str_replace ''package com.roshni.games.game.template''
                (''package com.roshni.games.game.'' @ ''puzzle-007'') (universal_newlines c)))
      (file_at example_fs ([''game''] @ [''template''] @ package_dir ''template'' @ [''TemplateGame.kt'']))
    = Some ''package com.roshni.games.game.puzzle-007; import com.roshni.games.game.template.util.X; class Puzzle007Game : BasePuzzle007X''"
    by code_simp
  have n: "[''TemplateGame.kt''] \<noteq> [] \<and> is_kt (last [''TemplateGame.kt'']) \<and>
      [''TemplateGame.kt''] \<noteq> [''GameConfig.kt'']"
    by code_simp
  from t have "file_at example_result ([''game''] @ [''puzzle-007''] @ [''build.gradle.kts''])
      = map_option
      (\<lambda>c. str_replace ''GAME_ID'' ''puzzle-007''
             (str_replace ''com.roshni.games.game.GAME_ID''
                (''com.roshni.games.game.'' @ ''puzzle-007'') (universal_newlines c)))
          (file_at example_fs ([''game''] @ [''template''] @ [''build.gradle.kts'']))"
    by blast
  with b have b': "file_at example_result [''game'', ''puzzle-007'', ''build.gradle.kts'']
      = Some ''namespace = com.roshni.games.game.puzzle-007; id = MY_puzzle-007_X''"
    by simp
  from t n have "file_at example_result
        ([''game''] @ [''puzzle-007''] @ package_dir ''puzzle-007'' @ [''TemplateGame.kt''])
      = map_option
      (\<lambda>c. str_replace ''Template''
             (str_replace ''_'' [] (title (str_replace ''-'' ''_'' ''puzzle-007'')))
             (str_replace ''package com.roshni.games.game.template''
                (''package com.roshni.games.game.'' @ ''puzzle-007'') (universal_newlines c)))
          (file_at example_fs ([''game''] @ [''template''] @ package_dir
             (if path_exists example_fs ([''game''] @ [''template''] @ package_dir ''template'')
              then ''template'' else ''puzzle-007'') @ [''TemplateGame.kt'']))"
    by blast
  with x k have k': "file_at example_result
        ([''game'', ''puzzle-007''] @ package_dir ''puzzle-007'' @ [''TemplateGame.kt''])
      = Some ''package com.roshni.games.game.puzzle-007; import com.roshni.games.game.template.util.X; class Puzzle007Game : BasePuzzle007X''"
    by simp
  from safe_token_example asc wf_example_fs example_run b' k' show ?thesis by blast
qed

text \<open>
  Claim C4, as amended. After a call that returned True, for an ASCII id and a file system
  with distinct names: when the derived type name is not empty, does not contain
  \<^verbatim>\<open>Template\<close> and does not end with a non-empty proper prefix of it (\<^verbatim>\<open>T\<close>, \<^verbatim>\<open>Te\<close>, up
  to \<^verbatim>\<open>Templat\<close>), no Kotlin file below the renamed package directory, other than the
  generated \<^verbatim>\<open>GameConfig.kt\<close>, contains the type-name token \<^verbatim>\<open>Template\<close>.
\<close>

theorem type_token_rewritten:
  assumes "safe_token game_id" and "ascii_only game_id" and "wf_node fs"
    and "setup_game_module env fs game_id game_name category base_path = (Returned True, fs')"
    and "type_name game_id \<noteq> []" and "\<not> recreates ''Template'' (type_name game_id)"
  shows "\<forall>p c. p \<noteq> [] \<and> is_kt (last p) \<and> p \<noteq> [''GameConfig.kt''] \<and>
           file_at fs' (base_path @ [game_id] @ package_dir game_id @ p) = Some c \<longrightarrow>
           \<not> sublist ''Template'' c"
proof (intro allI impI)
  fix p c
  assume a: "p \<noteq> [] \<and> is_kt (last p) \<and> p \<noteq> [''GameConfig.kt''] \<and>
           file_at fs' (base_path @ [game_id] @ package_dir game_id @ p) = Some c"
  with setup_game_module_files(2) [OF assms(4,3), of p]
  obtain c0 where "c = rewrite_kotlin game_id (universal_newlines c0)"
    by auto
  with rewrite_kotlin_no_template [OF assms(5,6)] show "\<not> sublist ''Template'' c"
    by simp
qed

text \<open>On the example with the id \<^verbatim>\<open>tetris\<close>, whose type name \<^verbatim>\<open>Tetris\<close> begins with \<^verbatim>\<open>T\<close>.\<close>

theorem type_token_rewritten_witness:
  "safe_token ''tetris'' \<and> ascii_only ''tetris'' \<and> wf_node example_fs \<and>
   fst (setup_game_module no_faults example_fs ''tetris'' ''Tetris'' ''puzzle'' [''game''])
     = Returned True \<and>
   type_name ''tetris'' = ''Tetris'' \<and> \<not> recreates ''Template'' ''Tetris'' \<and>
   is_kt ''TemplateGame.kt'' \<and>
   file_at (snd (setup_game_module no_faults example_fs ''tetris'' ''Tetris'' ''puzzle'' [''game'']))
       ([''game'', ''tetris''] @ package_dir ''tetris'' @ [''TemplateGame.kt''])
     = Some ''package com.roshni.games.game.tetris; import com.roshni.games.game.template.util.X; class TetrisGame : BaseTetrisX'' \<and>
   \<not> sublist ''Template'' ''package com.roshni.games.game.tetris; import com.roshni.games.game.template.util.X; class TetrisGame : BaseTetrisX''"
proof -
  let ?R = "setup_game_module no_faults example_fs ''tetris'' ''Tetris'' ''puzzle'' [''game'']"
  have s: "safe_token ''tetris''" by (simp add: safe_token_def)
  have asc: "ascii_only ''tetris''" by code_simp
  have r: "fst ?R = Returned True" by code_simp
  then have run: "?R = (Returned True, snd ?R)" by (metis prod.collapse)
  have tn: "type_name ''tetris'' = ''Tetris''" by code_simp
  have nr: "\<not> recreates ''Template'' ''Tetris''" by code_simp
  have h: "type_name ''tetris'' \<noteq> []" "\<not> recreates ''Template'' (type_name ''tetris'')"
    using nr by (simp_all add: tn)
  have kt: "is_kt ''TemplateGame.kt''" by code_simp
  have f: "file_at (snd ?R)
      ([''game''] @ [''tetris''] @ package_dir ''tetris'' @ [''TemplateGame.kt''])
     = Some ''package com.roshni.games.game.tetris; import com.roshni.games.game.template.util.X; class TetrisGame : BaseTetrisX''"
    by code_simp
  have n: "[''TemplateGame.kt''] \<noteq> [] \<and> is_kt (last [''TemplateGame.kt'']) \<and>
      [''TemplateGame.kt''] \<noteq> [''GameConfig.kt'']"
    using kt by simp
  from type_token_rewritten [OF s asc wf_example_fs run h] n f
  have "\<not> sublist ''Template'' ''package com.roshni.games.game.tetris; import com.roshni.games.game.template.util.X; class TetrisGame : BaseTetrisX''"
    by blast
  with s asc wf_example_fs r tn nr kt f show ?thesis by simp
qed

text \<open>
  As the claim is written it fails. The namespace token is only replaced inside a
  package declaration: the import of the example keeps
  \<^verbatim>\<open>com.roshni.games.game.template\<close>. The type-name token comes back when the derived
  name contains it: with the id \<^verbatim>\<open>my-template\<close> the class \<^verbatim>\<open>TemplateGame\<close> becomes
  \<^verbatim>\<open>MyTemplateGame\<close>. It comes back when the derived name is empty: with the id \<^verbatim>\<open>-\<close>
  the text \<^verbatim>\<open>TemTemplateplate\<close> becomes \<^verbatim>\<open>Template\<close>. And the generated
  \<^verbatim>\<open>GameConfig.kt\<close> holds the display name as it is given.
\<close>

theorem tokens_remain_counterexample:
  "fst (setup_game_module no_faults example_fs ''puzzle-007'' ''Amazing Puzzle'' ''puzzle''
          [''game'']) = Returned True \<and>
   is_kt ''TemplateGame.kt'' \<and>
   file_at example_result ([''game'', ''puzzle-007''] @ package_dir ''puzzle-007'' @ [''TemplateGame.kt''])
     = Some ''package com.roshni.games.game.puzzle-007; import com.roshni.games.game.template.util.X; class Puzzle007Game : BasePuzzle007X'' \<and>
   sublist ''com.roshni.games.game.template'' ''package com.roshni.games.game.puzzle-007; import com.roshni.games.game.template.util.X; class Puzzle007Game : BasePuzzle007X'' \<and>
   fst (setup_game_module no_faults example_fs ''my-template'' ''My Game'' ''puzzle''
          [''game'']) = Returned True \<and>
   file_at (snd (setup_game_module no_faults example_fs ''my-template'' ''My Game'' ''puzzle''
          [''game''])) ([''game'', ''my-template''] @ package_dir ''my-template'' @ [''TemplateGame.kt''])
     = Some ''package com.roshni.games.game.my-template; import com.roshni.games.game.template.util.X; class MyTemplateGame : BaseMyTemplateX'' \<and>
   sublist ''Template'' ''package com.roshni.games.game.my-template; import com.roshni.games.game.template.util.X; class MyTemplateGame : BaseMyTemplateX'' \<and>
   fst (setup_game_module no_faults split_token_fs ''-'' ''Template Wars'' ''puzzle''
          [''game'']) = Returned True \<and>
   is_kt ''A.kt'' \<and> is_kt ''GameConfig.kt'' \<and>
   file_at (snd (setup_game_module no_faults split_token_fs ''-'' ''Template Wars'' ''puzzle''
          [''game''])) ([''game'', ''-''] @ package_dir ''-'' @ [''A.kt''])
     = Some ''class Template'' \<and>
   sublist ''Template'' ''class Template'' \<and>
   file_at (snd (setup_game_module no_faults split_token_fs ''-'' ''Template Wars'' ''puzzle''
          [''game''])) ([''game'', ''-''] @ package_dir ''-'' @ [''GameConfig.kt''])
     = Some (config_content ''-'' ''Template Wars'' ''puzzle'') \<and>
   sublist ''Template'' (config_content ''-'' ''Template Wars'' ''puzzle'')"
  by code_simp

text \<open>
  Whatever the injected failures: a template that has neither the package directory
  \<^verbatim>\<open>template\<close> nor one named after the id never gives True.
\<close>

lemma missing_package_directory_never_succeeds:
  assumes "\<not> path_exists fs (base_path @ [''template''] @ package_dir ''template'')"
    and "\<not> path_exists fs (base_path @ [''template''] @ package_dir game_id)"
  shows "fst (setup_game_module env fs game_id game_name category base_path) \<noteq> Returned True"
proof
  let ?t = "base_path @ [''template'']" and ?g = "base_path @ [game_id]"
  let ?d = "?g @ package_dir game_id"
  assume "fst (setup_game_module env fs game_id game_name category base_path) = Returned True"
  then have "setup_game_module env fs game_id game_name category base_path
      = (Returned True, snd (setup_game_module env fs game_id game_name category base_path))"
    by (metis prod.collapse)
  then obtain fs' where b: "try_body env ?t ?g game_id game_name category fs = (Some (), fs')"
    using setup_game_module_TrueD by blast
  from b obtain fs1 fs2 fs3 fs4 where
    s1: "copytree env ?t ?g fs = (Some (), fs1)" and
    s2: "update_build_gradle env ?g game_id fs1 = (Some (), fs2)" and
    s3: "update_package_structure env ?g game_id fs2 = (Some (), fs3)" and
    s4: "update_kotlin_files env ?g game_id fs3 = (Some (), fs4)" and
    s5: "create_game_config env ?g game_id game_name category fs4 = (Some (), fs')"
    by (rule try_body_SomeE)
  from copytree_SomeD [OF s1] have l1: "\<And>r. lookup fs1 (?g @ r) = lookup fs (?t @ r)" by simp
  have l2: "lookup fs2 (?g @ package_dir x @ r) = lookup fs (?t @ package_dir x @ r)" for x r
    using update_build_gradle_SomeD [OF s2] build_apart_from_package_dir [of ?g x r]
      l1 [of "package_dir x @ r"] by simp
  from assms(1) l2 [of "''template''" "[]"] have "\<not> path_exists fs2 (?g @ package_dir ''template'')"
    by (simp add: path_exists_def)
  with update_package_structure_SomeD [OF s3]
  have "\<forall>r. lookup fs3 (?g @ package_dir game_id @ r) = lookup fs2 (?g @ package_dir game_id @ r)"
    by simp
  then have "lookup fs3 (?g @ package_dir game_id @ []) = lookup fs2 (?g @ package_dir game_id @ [])"
    by blast
  with l2 [of game_id "[]"] assms(2) have n3: "lookup fs3 ?d = None"
    by (simp add: path_exists_def)
  from update_kotlin_files_SomeD [OF s4] n3 have "fs4 = fs3" by simp
  with create_game_config_SomeD [OF s5] have "put fs3 (?d @ [''GameConfig.kt''])
      (File (config_content game_id game_name category)) = Some fs'"
    by (auto dest!: write_file_SomeD)
  moreover have "strict_prefix ?d (?d @ [''GameConfig.kt''])" by (simp add: strict_prefix_def)
  ultimately have "\<exists>es. lookup fs3 ?d = Some (Dir es)" using put_ancestor by blast
  with n3 show False by simp
qed

end
